(* ===== verification/Prelude.thy ===== *)
theory Prelude
  imports Main "HOL-Library.Word"
begin

text \<open>
  Shared vocabulary of the HORST development: the widths of the program's machine
  integers, the outcome type in which every operation that can leave defined C++
  behaviour is stated, the memory image of the integers that the program copies with
  \<open>memcpy\<close>, and the generic lemmas that the component theories use.
\<close>

subsection \<open>Machine integers\<close>

type_synonym u8 = "8 word"
type_synonym u16 = "16 word"
type_synonym u32 = "32 word"

subsection \<open>Outcomes\<close>

text \<open>
  An operation of the program either returns a value (\<open>Inr\<close>) or reaches a point where
  the process is lost: the call stack is exhausted, an object is used after it was
  freed, a null pointer is dereferenced, an uninitialised field is read, or a range
  outside a vector is erased.
\<close>

datatype fault =
    StackOverflow
  | UseAfterFree
  | NullDeref
  | UninitRead
  | OutOfBounds

type_synonym 'a outcome = "fault + 'a"

definition and_then :: "'a outcome \<Rightarrow> ('a \<Rightarrow> 'b outcome) \<Rightarrow> 'b outcome" where
  "and_then m f = (case m of Inl e \<Rightarrow> Inl e | Inr x \<Rightarrow> f x)"

named_theorems outcome_simps \<open>equations and decompositions of outcomes\<close>

lemma and_then_Inr [simp]: "and_then (Inr x) f = f x"
  by (simp add: and_then_def)

lemma and_then_Inl [simp]: "and_then (Inl e) f = Inl e"
  by (simp add: and_then_def)

lemma and_then_eq_Inr [outcome_simps]:
  "and_then m f = Inr y \<longleftrightarrow> (\<exists>x. m = Inr x \<and> f x = Inr y)"
  by (cases m) simp_all

lemma and_then_eq_Inl [outcome_simps]:
  "and_then m f = Inl e \<longleftrightarrow> m = Inl e \<or> (\<exists>x. m = Inr x \<and> f x = Inl e)"
  by (cases m) simp_all

lemma and_then_assoc: "and_then (and_then m f) g = and_then m (\<lambda>x. and_then (f x) g)"
  by (cases m) simp_all

text \<open>\<open>yields P m\<close>: the operation returns, and its value satisfies \<open>P\<close>.\<close>

definition yields :: "('a \<Rightarrow> bool) \<Rightarrow> 'a outcome \<Rightarrow> bool" where
  "yields P m \<longleftrightarrow> (case m of Inl _ \<Rightarrow> False | Inr x \<Rightarrow> P x)"

lemma yields_Inr [simp]: "yields P (Inr x) \<longleftrightarrow> P x"
  by (simp add: yields_def)

lemma yields_Inl [simp]: "\<not> yields P (Inl e)"
  by (simp add: yields_def)

lemma yields_iff: "yields P m \<longleftrightarrow> (\<exists>x. m = Inr x \<and> P x)"
  by (cases m) simp_all

lemma yields_and_then:
  "yields P m \<Longrightarrow> (\<And>x. P x \<Longrightarrow> yields Q (f x)) \<Longrightarrow> yields Q (and_then m f)"
  by (cases m) simp_all

lemma yields_mono: "yields P m \<Longrightarrow> (\<And>x. P x \<Longrightarrow> Q x) \<Longrightarrow> yields Q m"
  by (cases m) simp_all

text \<open>\<open>refines m m'\<close>: whatever \<open>m\<close> returns, \<open>m'\<close> returns too.\<close>

definition refines :: "'a outcome \<Rightarrow> 'a outcome \<Rightarrow> bool" where
  "refines m m' \<longleftrightarrow> (\<forall>x. m = Inr x \<longrightarrow> m' = Inr x)"

lemma refines_refl [simp]: "refines m m"
  by (simp add: refines_def)

lemma refines_Inl [simp]: "refines (Inl e) m"
  by (simp add: refines_def)

lemma refinesD: "refines m m' \<Longrightarrow> m = Inr x \<Longrightarrow> m' = Inr x"
  by (simp add: refines_def)

lemma refines_and_then:
  "refines m m' \<Longrightarrow> (\<And>x. refines (f x) (f' x)) \<Longrightarrow> refines (and_then m f) (and_then m' f')"
  by (cases m) (auto simp: refines_def)

subsection \<open>Memory images\<close>

text \<open>
  \<open>le32 w\<close> is what \<open>memcpy\<close> writes for a \<open>uint32_t\<close> on the little-endian targets of
  the program, and \<open>un_le32\<close> what it reads back from the first four bytes of a buffer.
\<close>

definition le32 :: "u32 \<Rightarrow> string" where
  "le32 w = (let n = unat w in
     [char_of n, char_of (n div 256), char_of (n div 65536), char_of (n div 16777216)])"

definition un_le32 :: "string \<Rightarrow> u32" where
  "un_le32 bs = word_of_nat
     (of_char (bs ! 0) + 256 * of_char (bs ! 1) + 65536 * of_char (bs ! 2)
       + 16777216 * (of_char (bs ! 3) :: nat))"

lemma length_le32 [simp]: "length (le32 w) = 4"
  by (simp add: le32_def Let_def)

lemma base256_digits:
  fixes n :: nat
  assumes "n < 4294967296"
  shows "n mod 256 + 256 * (n div 256 mod 256) + 65536 * (n div 65536 mod 256)
    + 16777216 * (n div 16777216 mod 256) = n"
proof -
  have a: "n div 65536 = n div 256 div 256" and b: "n div 16777216 = n div 256 div 256 div 256"
    by (simp_all add: div_mult2_eq [symmetric])
  have c: "n div 256 div 256 div 256 < 256"
    using assms by (simp add: div_mult2_eq [symmetric] less_mult_imp_div_less)
  have "n = 256 * (n div 256) + n mod 256"
    and "n div 256 = 256 * (n div 256 div 256) + n div 256 mod 256"
    and "n div 256 div 256 = 256 * (n div 256 div 256 div 256) + n div 256 div 256 mod 256"
    by simp_all
  then show ?thesis
    unfolding a b mod_less [OF c] by linarith
qed

lemma un_le32_le32 [simp]: "un_le32 (le32 w @ rest) = w"
proof -
  have "unat w < 4294967296"
    using unsigned_less [of w, where ?'a = nat] by simp
  then have "unat w mod 256 + 256 * (unat w div 256 mod 256) + 65536 * (unat w div 65536 mod 256)
      + 16777216 * (unat w div 16777216 mod 256) = unat w"
    by (rule base256_digits)
  moreover have "un_le32 (le32 w @ rest) = word_of_nat
      (unat w mod 256 + 256 * (unat w div 256 mod 256) + 65536 * (unat w div 65536 mod 256)
        + 16777216 * (unat w div 16777216 mod 256))"
    by (simp only: un_le32_def le32_def Let_def append_Cons nth_Cons_0 nth_Cons_numeral
        nth_Cons_Suc One_nat_def numeral_2_eq_2 numeral_3_eq_3 of_char_of)
  ultimately have "un_le32 (le32 w @ rest) = word_of_nat (unat w)"
    by (simp only:)
  then show ?thesis
    by simp
qed

lemma un_le32_append:
  assumes "4 \<le> length bs"
  shows "un_le32 (bs @ cs) = un_le32 bs"
  using assms by (auto simp: un_le32_def nth_append)

lemma inj_le32: "le32 v = le32 w \<Longrightarrow> v = w"
  using un_le32_le32 [of v "[]"] un_le32_le32 [of w "[]"] by simp

end
