(* ===== verification/S3tpProto.thy ===== *)
theory S3tpProto
  imports Prelude
begin

text \<open>
  The protocol between HORST and its clients over S3TP: the message types of
  \<^verbatim>\<open>src/server/s3tp_proto.h\<close> and the frame in which both sides put a message, a 32-bit
  length, the type and the data.
\<close>

datatype message_type = NONE | STDIN | STDOUT | STDERR | STARTED | ENDOFFILE

fun mt_value :: "message_type \<Rightarrow> nat" where
  "mt_value NONE = 0"
| "mt_value STDIN = 1"
| "mt_value STDOUT = 2"
| "mt_value STDERR = 4"
| "mt_value STARTED = 8"
| "mt_value ENDOFFILE = 16"

text \<open>The byte that \<open>memcpy\<close> writes for a message type.\<close>

definition mt_byte :: "message_type \<Rightarrow> char" where
  "mt_byte t = char_of (mt_value t)"

lemma mt_value_inj: "mt_value s = mt_value t \<Longrightarrow> s = t"
  by (cases s; cases t) simp_all

lemma mt_value_less: "mt_value t < 256"
  by (cases t) simp_all

lemma of_char_mt_byte [simp]: "(of_char (mt_byte t) :: nat) = mt_value t"
  using mt_value_less [of t] by (simp add: mt_byte_def)

lemma mt_byte_eq [simp]: "mt_byte s = mt_byte t \<longleftrightarrow> s = t"
  using mt_value_inj of_char_mt_byte by metis

definition headersize :: nat where
  "headersize = 5"

definition frame :: "message_type \<Rightarrow> string \<Rightarrow> string" where
  "frame t msg = le32 (word_of_nat (length msg)) @ [mt_byte t] @ msg"

text \<open>The messages that fit in a frame.\<close>

definition framable :: "string \<Rightarrow> bool" where
  "framable msg \<longleftrightarrow> length msg < 2 ^ 32"

lemma length_frame [simp]: "length (frame t msg) = headersize + length msg"
  by (simp add: frame_def headersize_def)

lemma unat_frame_length: "framable msg \<Longrightarrow> unat (word_of_nat (length msg) :: u32) = length msg"
  by (simp add: framable_def unat_of_nat)

lemma frame_length_zero:
  "framable msg \<Longrightarrow> (word_of_nat (length msg) :: u32) = 0 \<longleftrightarrow> msg = []"
  using unat_frame_length [of msg] by (metis length_0_conv unat_0 unat_eq_zero)

lemma un_le32_frame [simp]: "un_le32 (frame t msg @ rest) = word_of_nat (length msg)"
  by (simp add: frame_def)

lemma frame_type [simp]: "(frame t msg @ rest) ! 4 = mt_byte t"
  by (simp add: frame_def nth_append)

lemma frame_data [simp]:
  "drop headersize (frame t msg @ rest) = msg @ rest"
  "drop headersize (frame t msg) = msg"
  "drop (headersize + length msg) (frame t msg @ rest) = rest"
  by (simp_all add: frame_def headersize_def)

lemmas frame_simps =
  un_le32_frame [where rest = "[]", simplified] frame_type [where rest = "[]", simplified]
  frame_data(3) [where rest = "[]", simplified]

text \<open>A part of a frame that holds the header reads the same header.\<close>

lemma frame_prefix_header:
  assumes "frame t msg = pre @ post" and "headersize \<le> length pre"
  shows "un_le32 pre = word_of_nat (length msg)" and "pre ! 4 = mt_byte t"
proof -
  have "un_le32 (pre @ post) = un_le32 pre" and "(pre @ post) ! 4 = pre ! 4"
    using assms(2) by (simp_all add: un_le32_append nth_append headersize_def)
  then show "un_le32 pre = word_of_nat (length msg)" and "pre ! 4 = mt_byte t"
    unfolding assms(1) [symmetric] by (simp_all add: frame_simps)
qed

end
