(* ===== verification/Util.thy ===== *)
theory Util
  imports Prelude
begin

text \<open>
  Model of \<^verbatim>\<open>src/util.h\<close> and \<^verbatim>\<open>src/util.cpp\<close>, and of the library text functions the
  program relies on (\<open>toupper\<close> in the C locale, which the program never changes,
  \<open>std::to_string\<close> and \<open>std::stoi\<close>). Strings are byte strings. What is not fixed
  by the source is a parameter: \<open>sc\<close> says whether plain \<open>char\<close> is signed, and
  the flag values of libuv come as arguments.
\<close>

unbundle bit_operations_syntax

subsection \<open>The compile-time hash\<close>

text \<open>
  \<open>str2int\<close> mixes the bytes of a C string from its end. The operand \<open>str[h]\<close> is a
  plain \<open>char\<close>, promoted to \<open>int\<close> and then converted to \<open>unsigned int\<close>: a byte above
  127 is sign-extended where \<open>char\<close> is signed.
\<close>

definition promote :: "bool \<Rightarrow> char \<Rightarrow> u32" where
  "promote sc c = (let b = (of_char c :: u8) in if sc then scast b else ucast b)"

fun str2int :: "bool \<Rightarrow> string \<Rightarrow> u32" where
  "str2int sc [] = 5381"
| "str2int sc (c # cs) =
     (if c = CHR 0x00 then 5381 else (str2int sc cs * 33) XOR promote sc c)"

subsection \<open>Upper case\<close>

definition toupper :: "char \<Rightarrow> char" where
  "toupper c = (let n = (of_char c :: nat) in
     if 97 \<le> n \<and> n \<le> 122 then char_of (n - 32) else c)"

text \<open>The loop \<open>while (*p) { *p = toupper(*p); p++; }\<close> of the three text parsers.\<close>

fun upcase :: "string \<Rightarrow> string" where
  "upcase [] = []"
| "upcase (c # cs) = (if c = CHR 0x00 then c # cs else toupper c # upcase cs)"

subsection \<open>Growing a vector\<close>

text \<open>
  The copying and the moving overload of \<open>vector_extend\<close>; the moving one returns the
  emptied source beside the extended vector.
\<close>

definition vector_extend :: "'a list \<Rightarrow> 'a list \<Rightarrow> 'a list" where
  "vector_extend vec ext = vec @ ext"

definition vector_extend_move :: "'a list \<Rightarrow> 'a list \<Rightarrow> 'a list \<times> 'a list" where
  "vector_extend_move vec ext = (if vec = [] then (ext, []) else (vec @ ext, []))"

subsection \<open>Poll flags\<close>

text \<open>\<open>POLLIN\<close>, \<open>POLLPRI\<close> and \<open>POLLOUT\<close> as in \<^verbatim>\<open>poll.h\<close>; the libuv flags are arguments.\<close>

definition poll_to_libuv_events :: "u32 \<Rightarrow> u32 \<Rightarrow> u32 \<Rightarrow> u32" where
  "poll_to_libuv_events uv_readable uv_writable pollflags =
     (let ret = 0;
          ret = (if pollflags AND (1 OR 2) \<noteq> 0 then ret OR uv_readable else ret);
          ret = (if pollflags AND 4 \<noteq> 0 then ret OR uv_writable else ret)
      in ret)"

subsection \<open>Running a script and waiting for it\<close>

text \<open>
  \<open>wexitstatus\<close> is the macro \<open>WEXITSTATUS\<close> on an \<open>int\<close>. The argument \<open>sh\<close> stands for
  \<open>popen\<close> and \<open>pclose\<close>: \<open>None\<close> where \<open>popen\<close> returns \<open>NULL\<close>, otherwise the wait
  status that \<open>pclose\<close> returns.
\<close>

definition wexitstatus :: "u32 \<Rightarrow> u32" where
  "wexitstatus status = drop_bit 8 (status AND 0xff00)"

definition exec :: "(string \<Rightarrow> u32 option) \<Rightarrow> string \<Rightarrow> u32" where
  "exec sh cmd =
     (let exit = (100 :: u32);
          exit = (case sh cmd of None \<Rightarrow> exit | Some status \<Rightarrow> status)
      in wexitstatus exit)"

subsection \<open>Decimal text\<close>

definition digit :: "nat \<Rightarrow> char" where
  "digit n = char_of (48 + n)"

fun show_nat :: "nat \<Rightarrow> string" where
  "show_nat n = (if n < 10 then [digit n] else show_nat (n div 10) @ [digit (n mod 10)])"

declare show_nat.simps [simp del]

definition show_int :: "int \<Rightarrow> string" where
  "show_int i = (if i < 0 then CHR ''-'' # show_nat (nat (- i)) else show_nat (nat i))"

definition is_digit :: "char \<Rightarrow> bool" where
  "is_digit c = (let n = (of_char c :: nat) in 48 \<le> n \<and> n \<le> 57)"

definition is_space :: "char \<Rightarrow> bool" where
  "is_space c = (let n = (of_char c :: nat) in n = 32 \<or> (9 \<le> n \<and> n \<le> 13))"

definition digits_value :: "string \<Rightarrow> int" where
  "digits_value cs = foldl (\<lambda>v c. 10 * v + (of_char c - 48)) 0 cs"

text \<open>
  \<open>std::stoi\<close> with base ten: leading white space, an optional sign, then the longest run
  of digits; what follows is ignored.
\<close>

datatype std_exception =
    invalid_argument
  | out_of_range

definition stoi :: "string \<Rightarrow> std_exception + int" where
  "stoi str =
     (let s = dropWhile is_space str;
          neg = (s \<noteq> [] \<and> hd s = CHR ''-'');
          s = (if s \<noteq> [] \<and> (hd s = CHR ''-'' \<or> hd s = CHR ''+'') then tl s else s);
          ds = takeWhile is_digit s;
          v = (if neg then - digits_value ds else digits_value ds)
      in if ds = [] then Inl invalid_argument
         else if v < - 2147483648 \<or> 2147483647 < v then Inl out_of_range
         else Inr v)"

end
