(* ===== verification/Process.thy ===== *)
theory Process
  imports Util
begin

text \<open>
  Model of \<^verbatim>\<open>src/process.h\<close> and \<^verbatim>\<open>src/process.cpp\<close>: a child process started with
  \<open>sh -c\<close>. libuv is a parameter: the result of \<open>uv_spawn\<close> and the exit notifications
  (status and terminating signal) come from outside. The fields that the constructor
  leaves uninitialised have an option type, with \<open>None\<close> until they are written.
\<close>

subsection \<open>State\<close>

text \<open>
  \<open>stdio_count\<close>, \<open>has_in\<close>, \<open>exit_code\<close> and \<open>signal\<close> are the fields of the class. The
  other fields say what libuv was asked to do: \<open>running\<close> from a successful spawn to the
  exit notification, \<open>reading\<close> from a successful call of \<open>uv_read_start\<close> to the next of
  \<open>uv_read_stop\<close> (libuv reads a pipe only while it is open, too), \<open>written\<close> the
  data passed to \<open>uv_write\<close>, \<open>sigterm\<close> whether \<open>uv_process_kill\<close> was called and
  \<open>pipes_open\<close> whether the two output pipes are initialised and not closed.
\<close>

record process =
  cmd :: string
  exit_code :: int
  signal :: int
  stdio_count :: nat
  has_in :: "bool option"
  running :: bool
  reading :: bool
  pipes_open :: bool
  written :: "string list"
  sigterm :: bool

text \<open>The signal number of \<open>SIGTERM\<close>.\<close>

definition SIGTERM :: int where
  "SIGTERM = 15"

subsection \<open>Operations\<close>

text \<open>
  The constructor. The second component says whether \<open>exited()\<close> is called before the
  constructor returns, which happens when \<open>uv_spawn\<close> fails.
\<close>

definition Process_new :: "int \<Rightarrow> string \<Rightarrow> bool \<Rightarrow> process \<times> bool" where
  "Process_new r command s3tp =
     (let p = \<lparr>cmd = command, exit_code = - 1, signal = 0,
               stdio_count = (if s3tp then 3 else 0),
               has_in = (if s3tp then Some True else None),
               running = False, reading = False, pipes_open = s3tp,
               written = [], sigterm = False\<rparr>
      in if r \<noteq> 0 then (p\<lparr>exit_code := - 1\<rparr>, True)
         else (p\<lparr>running := True\<rparr>, False))"

definition close_input :: "process \<Rightarrow> process outcome" where
  "close_input p =
     (case has_in p of
        None \<Rightarrow> Inl UninitRead
      | Some False \<Rightarrow> Inr p
      | Some True \<Rightarrow> Inr (p\<lparr>has_in := Some False\<rparr>))"

definition input :: "string \<Rightarrow> process \<Rightarrow> process outcome" where
  "input data p =
     (case has_in p of
        None \<Rightarrow> Inl UninitRead
      | Some False \<Rightarrow> Inr p
      | Some True \<Rightarrow> Inr (p\<lparr>written := written p @ [data]\<rparr>))"

definition kill :: "process \<Rightarrow> process" where
  "kill p = p\<lparr>sigterm := True\<rparr>"

text \<open>\<open>uv_read_start\<close> fails, without effect, on a pipe that is being closed.\<close>

definition start_output :: "process \<Rightarrow> process" where
  "start_output p = (if pipes_open p then p\<lparr>reading := True\<rparr> else p)"

definition stop_output :: "process \<Rightarrow> process" where
  "stop_output p = p\<lparr>reading := False\<rparr>"

text \<open>
  \<open>options.exit_cb\<close> with the close callback it installs. The pipes are closed only when
  the process had them; \<open>exited()\<close> runs, with the exit code in the first component's
  \<open>exit_code\<close>, unless the process died of \<open>SIGTERM\<close>.
\<close>

definition exit_cb :: "int \<Rightarrow> int \<Rightarrow> process \<Rightarrow> (process \<times> bool) outcome" where
  "exit_cb exit_status sig p =
     (let p1 = p\<lparr>exit_code := exit_status, signal := sig, running := False\<rparr>
      in and_then
           (if stdio_count p1 = 3
            then and_then (close_input (p1\<lparr>pipes_open := False, reading := False\<rparr>))
                   (\<lambda>p2. Inr (p2\<lparr>stdio_count := 0\<rparr>))
            else Inr p1)
           (\<lambda>p2. Inr (p2, signal p2 \<noteq> SIGTERM)))"

text \<open>The text by which both kinds of clients of a process report its exit code.\<close>

definition exit_text :: "int \<Rightarrow> string" where
  "exit_text code = ''[exit] '' @ show_int code @ [CHR 0x0A]"

subsection \<open>Correctness\<close>

text \<open>
  Well-formedness: a process with pipes knows whether its input is open. It makes every
  read of \<open>has_in\<close> that follows defined.
\<close>

definition process_wf :: "process \<Rightarrow> bool" where
  "process_wf p \<longleftrightarrow> (stdio_count p = 3 \<longrightarrow> has_in p \<noteq> None) \<and> stdio_count p \<in> {0, 3}"

lemma Process_new_wf: "process_wf (fst (Process_new r command s3tp))"
  by (auto simp: Process_new_def process_wf_def Let_def)

lemma Process_new_exited: "snd (Process_new r command s3tp) \<longleftrightarrow> r \<noteq> 0"
  by (simp add: Process_new_def Let_def)

lemma Process_new_ok:
  "Process_new 0 command s3tp = (p, b) \<Longrightarrow> running p \<and> \<not> b \<and> cmd p = command"
  by (auto simp: Process_new_def Let_def)

lemma exit_cb_yields:
  assumes "process_wf p"
  shows "yields (\<lambda>(p', run). exit_code p' = status \<and> \<not> running p' \<and> stdio_count p' = 0 \<and>
    process_wf p' \<and> (run \<longleftrightarrow> sig \<noteq> SIGTERM)) (exit_cb status sig p)"
  using assms
  by (auto simp: exit_cb_def process_wf_def close_input_def Let_def split: option.split bool.split)

lemma exit_cb_code:
  "exit_cb status sig p = Inr (p', run) \<Longrightarrow> exit_code p' = status \<and> (run \<longleftrightarrow> sig \<noteq> SIGTERM)"
  by (auto simp: exit_cb_def close_input_def Let_def outcome_simps
      split: option.splits bool.splits if_splits)

lemma exit_cb_has_in:
  "exit_cb status sig p = Inr (q, run) \<Longrightarrow> has_in p \<noteq> None \<Longrightarrow> has_in q \<noteq> None"
  by (auto simp: exit_cb_def close_input_def Let_def outcome_simps
      split: option.splits bool.splits if_splits)

lemma exit_cb_no_pipes:
  "stdio_count p = 0 \<Longrightarrow> exit_cb status sig p =
     Inr (p\<lparr>exit_code := status, signal := sig, running := False\<rparr>, sig \<noteq> SIGTERM)"
  by (simp add: exit_cb_def Let_def)

lemma close_input_idem:
  "close_input p = Inr q \<Longrightarrow> close_input q = Inr q"
  by (auto simp: close_input_def split: option.splits bool.splits)

lemma input_after_close:
  "close_input p = Inr q \<Longrightarrow> input data q = Inr q"
  by (auto simp: close_input_def input_def split: option.splits bool.splits)

end
