(* ===== verification/S3tp.thy ===== *)
theory S3tp
  imports S3tpProto Process
begin

text \<open>
  The S3TP server of \<^verbatim>\<open>src/server/s3tp.h\<close> and \<^verbatim>\<open>src/server/s3tp.cpp\<close>. The S3TP library
  and libuv are the argument \<open>E\<close>: their results, which may depend on the calls made so
  far, and their constants. The calls are recorded in the field \<open>trace\<close>. A soft
  \<open>disconnect\<close> only asks the library to close the channel; that it is closed is
  reported later, by \<open>onDisconnected\<close>. Sizes are those of a 64-bit target.
\<close>

unbundle bit_operations_syntax

subsection \<open>State\<close>

datatype s3tp_call =
    Bind int
  | Accept int
  | Send string int
  | Spawn string int
  | Poll u32
  | Disconnect

record s3tp_env =
  bind_result :: "s3tp_call list \<Rightarrow> int"
  accept_result :: "s3tp_call list \<Rightarrow> int"
  send_result :: "s3tp_call list \<Rightarrow> string \<Rightarrow> int"
  spawn_result :: "s3tp_call list \<Rightarrow> string \<Rightarrow> int"
  active_events :: "s3tp_call list \<Rightarrow> u32"
  ERROR_BUFFER_FULL :: int
  S3TP_ASYNC_EVENT_READ :: u32
  S3TP_ASYNC_EVENT_WRITE :: u32
  UV_READABLE :: u32
  UV_WRITABLE :: u32
  UV_DISCONNECT :: u32
  closure_kept :: "s3tp_call list \<Rightarrow> bool"

text \<open>
  \<open>closure_kept\<close> is about the exit callback that the server gives to its process. The callback
  destroys the process, and with it the callback object that is running, and then reads the
  pointer \<open>this\<close> that the object captured. The language gives this read no meaning; whether
  the pointer is still there, in a register or in the freed memory, depends on the compiler
  and the allocator and is a parameter.
\<close>

definition keeps_closures :: "s3tp_env \<Rightarrow> bool" where
  "keeps_closures E \<longleftrightarrow> (\<forall>h. closure_kept E h)"

text \<open>The two callbacks with which the one timer is started.\<close>

datatype timer_cb = WaitForKill | RetryConnect

text \<open>
  \<open>channel\<close> says whether the pointer is set, \<open>polling\<close> whether the poll handle is
  active. The buffers, \<open>expected\<close> and \<open>process\<close> are the fields of the class. \<open>orphans\<close>
  counts the processes that were freed while libuv still ran them: their handles are in
  libuv's lists, in memory that is no longer theirs.
\<close>

record s3tp_server =
  cfg_port :: int
  cfg_socketpath :: string
  cfg_options :: int
  cfg_channel :: int
  channel :: bool
  buf :: string
  expected :: u32
  timer :: "timer_cb option"
  process :: "process option"
  outbuf :: string
  polling :: bool
  orphans :: nat
  trace :: "s3tp_call list"

definition S3TPServer_new :: "int \<Rightarrow> string \<Rightarrow> s3tp_server" where
  "S3TPServer_new port socketpath =
     \<lparr>cfg_port = port, cfg_socketpath = socketpath, cfg_options = 0, cfg_channel = 3, channel = False, buf = [],
      expected = 0, timer = None, process = None, outbuf = [], polling = False, orphans = 0, trace = []\<rparr>"

definition log_call :: "s3tp_call \<Rightarrow> s3tp_server \<Rightarrow> s3tp_server" where
  "log_call c srv = srv\<lparr>trace := trace srv @ [c]\<rparr>"

subsection \<open>Connection\<close>

definition next_events :: "s3tp_env \<Rightarrow> u32 \<Rightarrow> u32" where
  "next_events E current_events =
     (let next_events = 0;
          next_events = (if current_events AND S3TP_ASYNC_EVENT_READ E \<noteq> 0
                         then next_events OR UV_READABLE E else next_events);
          next_events = (if current_events AND S3TP_ASYNC_EVENT_WRITE E \<noteq> 0
                         then next_events OR UV_WRITABLE E else next_events)
      in next_events OR UV_DISCONNECT E)"

definition update_events :: "s3tp_env \<Rightarrow> s3tp_server \<Rightarrow> s3tp_server outcome" where
  "update_events E srv =
     (if \<not> channel srv then Inl NullDeref
      else Inr (log_call (Poll (next_events E (active_events E (trace srv))))
                 (srv\<lparr>polling := True\<rparr>)))"

definition reconnect :: "s3tp_env \<Rightarrow> s3tp_server \<Rightarrow> (bool \<times> s3tp_server) outcome" where
  "reconnect E srv =
     (if channel srv then Inr (True, srv)
      else
        case process srv of
          Some p \<Rightarrow> Inr (False, srv\<lparr>process := Some (kill p), timer := Some WaitForKill\<rparr>)
        | None \<Rightarrow>
            let srv = srv\<lparr>buf := [], expected := 0, outbuf := [], channel := True\<rparr>;
                error = bind_result E (trace srv);
                srv = log_call (Bind error) srv;
                srv =
                  (if error = 0
                   then
                     let r = accept_result E (trace srv);
                         srv = log_call (Accept r) srv
                     in if r < 0 then srv\<lparr>channel := False\<rparr> else srv
                   else srv\<lparr>channel := False\<rparr>)
            in if \<not> channel srv then Inr (False, srv\<lparr>timer := Some RetryConnect\<rparr>)
               else and_then (update_events E srv) (\<lambda>srv. Inr (True, srv)))"

definition close :: "s3tp_env \<Rightarrow> s3tp_server \<Rightarrow> s3tp_server outcome" where
  "close E srv = and_then (reconnect E (srv\<lparr>polling := False, channel := False\<rparr>)) (\<lambda>(_, srv). Inr srv)"

definition start :: "s3tp_env \<Rightarrow> s3tp_server \<Rightarrow> (bool \<times> s3tp_server) outcome" where
  "start E srv = reconnect E srv"

text \<open>
  The timer fires, once: it is started without repetition. The callback that waits for
  the killed process frees it, running or not.
\<close>

definition free_process :: "s3tp_server \<Rightarrow> s3tp_server" where
  "free_process srv =
     srv\<lparr>process := None,
         orphans := orphans srv + (case process srv of None \<Rightarrow> 0 | Some p \<Rightarrow> if running p then 1 else 0)\<rparr>"

definition on_timer :: "s3tp_env \<Rightarrow> s3tp_server \<Rightarrow> s3tp_server outcome" where
  "on_timer E srv =
     (case timer srv of
        None \<Rightarrow> Inr srv
      | Some WaitForKill \<Rightarrow>
          and_then (reconnect E (free_process (srv\<lparr>timer := None\<rparr>))) (\<lambda>(_, srv). Inr srv)
      | Some RetryConnect \<Rightarrow>
          and_then (reconnect E (srv\<lparr>timer := None\<rparr>)) (\<lambda>(_, srv). Inr srv))"

definition onDisconnected :: "s3tp_env \<Rightarrow> s3tp_server \<Rightarrow> s3tp_server outcome" where
  "onDisconnected E srv =
     and_then (reconnect E (srv\<lparr>polling := False, channel := False\<rparr>)) (\<lambda>(_, srv). Inr srv)"

subsection \<open>Output\<close>

definition disconnect :: "s3tp_server \<Rightarrow> s3tp_server outcome" where
  "disconnect srv = (if channel srv then Inr (log_call Disconnect srv) else Inl NullDeref)"

definition stop_process_output :: "s3tp_server \<Rightarrow> s3tp_server" where
  "stop_process_output srv = srv\<lparr>process := map_option stop_output (process srv)\<rparr>"

definition send_buf :: "s3tp_env \<Rightarrow> s3tp_server \<Rightarrow> (bool \<times> s3tp_server) outcome" where
  "send_buf E srv =
     (if outbuf srv = [] then Inr (True, srv)
      else if \<not> channel srv then Inl NullDeref
      else
        let r = send_result E (trace srv) (outbuf srv);
            srv = log_call (Send (outbuf srv) r) srv
        in if r = ERROR_BUFFER_FULL E then Inr (False, stop_process_output srv)
           else if r < 0 then and_then (close E srv) (\<lambda>srv. Inr (False, srv))
           else
             let srv = srv\<lparr>outbuf := []\<rparr>
             in if process srv = None
                then and_then (disconnect srv) (\<lambda>srv. Inr (True, srv))
                else Inr (True, srv))"

text \<open>The name \<open>send\<close> of the class; \<open>msg\<close> points to at least \<open>len\<close> bytes.\<close>

definition send :: "s3tp_env \<Rightarrow> string \<Rightarrow> u32 \<Rightarrow> message_type \<Rightarrow> s3tp_server \<Rightarrow> s3tp_server outcome" where
  "send E msg len type srv =
     (if len = 0 \<and> type = NONE then Inr srv
      else if \<not> channel srv then Inr srv
      else
        let srv = srv\<lparr>outbuf := outbuf srv @ le32 len @ [mt_byte type]\<rparr>;
            srv = srv\<lparr>outbuf := outbuf srv @ take (unat len) msg\<rparr>
        in and_then (send_buf E srv) (\<lambda>(_, srv). update_events E srv))"

definition onBufferFull :: "s3tp_server \<Rightarrow> s3tp_server outcome" where
  "onBufferFull srv = Inr (stop_process_output srv)"

definition onBufferEmpty :: "s3tp_env \<Rightarrow> s3tp_server \<Rightarrow> s3tp_server outcome" where
  "onBufferEmpty E srv =
     and_then (send_buf E (srv\<lparr>process := map_option start_output (process srv)\<rparr>))
       (\<lambda>(_, srv). Inr srv)"

text \<open>
  \<open>Process::read_callback\<close>: libuv has read \<open>nread\<close> bytes of the child's output, or
  reports an error or the end of the file with \<open>nread \<le> 0\<close>.
\<close>

definition read_callback :: "s3tp_env \<Rightarrow> bool \<Rightarrow> int \<Rightarrow> string \<Rightarrow> s3tp_server \<Rightarrow> s3tp_server outcome" where
  "read_callback E is_out nread base srv =
     (if 0 < nread
      then send E base (word_of_int nread) (if is_out then STDOUT else STDERR) srv
      else Inr srv)"

subsection \<open>The remote process\<close>

text \<open>
  The exit callback that the server gives its process. Setting \<open>process\<close> to null frees the
  process that has exited, and the callback object with it; every statement after that reads
  the captured \<open>this\<close>. When the constructor of \<open>Process\<close> makes the call, because the spawn
  failed, the pointer is still null and nothing is freed.
\<close>

definition exit_callback :: "s3tp_env \<Rightarrow> int \<Rightarrow> s3tp_server \<Rightarrow> s3tp_server outcome" where
  "exit_callback E code srv =
     and_then (send E (exit_text code) (word_of_nat (length (exit_text code))) ENDOFFILE srv)
       (\<lambda>srv.
          let freed = (process srv \<noteq> None);
              srv = srv\<lparr>process := None\<rparr>
          in if freed \<and> \<not> closure_kept E (trace srv) then Inl UseAfterFree
             else if outbuf srv \<noteq> []
             then and_then (send_buf E srv) (\<lambda>(_, srv). Inr srv)
             else disconnect srv)"

definition start_command :: "s3tp_env \<Rightarrow> string \<Rightarrow> s3tp_server \<Rightarrow> s3tp_server outcome" where
  "start_command E command srv =
     (let r = spawn_result E (trace srv) command;
          (p, exited) = Process_new r command True;
          srv = log_call (Spawn command r) srv
      in and_then (if exited then exit_callback E (exit_code p) srv else Inr srv)
           (\<lambda>srv.
              let srv = srv\<lparr>process := Some p\<rparr>
              in and_then (send E [] 0 STARTED srv)
                   (\<lambda>srv.
                      case process srv of
                        None \<Rightarrow> Inl NullDeref
                      | Some p \<Rightarrow> Inr (srv\<lparr>process := Some (start_output p)\<rparr>))))"

text \<open>A libuv exit notification for the process, to the end of its close callback.\<close>

definition process_exited :: "s3tp_env \<Rightarrow> int \<Rightarrow> int \<Rightarrow> s3tp_server \<Rightarrow> s3tp_server outcome" where
  "process_exited E status sig srv =
     (case process srv of
        None \<Rightarrow> Inl UseAfterFree
      | Some p \<Rightarrow>
          and_then (exit_cb status sig p)
            (\<lambda>(p, run).
               let srv = srv\<lparr>process := Some p\<rparr>
               in if run then exit_callback E (exit_code p) srv else Inr srv))"

subsection \<open>Input\<close>

definition compare_to_buf :: "string \<Rightarrow> s3tp_server \<Rightarrow> bool" where
  "compare_to_buf str srv = (if length (buf srv) < 4 then False else drop 4 (buf srv) = str)"

definition erase_front :: "nat \<Rightarrow> s3tp_server \<Rightarrow> s3tp_server outcome" where
  "erase_front n srv =
     (if length (buf srv) < n then Inl OutOfBounds else Inr (srv\<lparr>buf := drop n (buf srv)\<rparr>))"

text \<open>
  A complete frame is in the buffer: its data go to the process, or start one. The final
  \<open>erase\<close> uses the field \<open>expected\<close> as it is then.
\<close>

definition handle_frame :: "s3tp_env \<Rightarrow> char \<Rightarrow> s3tp_server \<Rightarrow> s3tp_server outcome" where
  "handle_frame E type srv =
     and_then
       (case process srv of
          Some p \<Rightarrow>
            if type = mt_byte ENDOFFILE
            then and_then (close_input p) (\<lambda>p. Inr (srv\<lparr>process := Some p\<rparr>))
            else and_then (input (take (unat (expected srv)) (drop headersize (buf srv))) p)
                   (\<lambda>p. Inr (srv\<lparr>process := Some p\<rparr>))
        | None \<Rightarrow>
            start_command E (take (unat (expected srv)) (drop headersize (buf srv))) srv)
       (\<lambda>srv.
          and_then (erase_front (headersize + unat (expected srv)) srv)
            (\<lambda>srv. Inr (srv\<lparr>expected := 0\<rparr>)))"

text \<open>
  \<open>onDataReceived\<close>. The local variable \<open>type\<close> is only assigned when a header is read in
  the same call; otherwise it holds \<open>garbage\<close>.
\<close>

definition onDataReceived :: "s3tp_env \<Rightarrow> char \<Rightarrow> string \<Rightarrow> s3tp_server \<Rightarrow> s3tp_server outcome" where
  "onDataReceived E garbage data srv =
     (let type = garbage;
          srv = srv\<lparr>buf := buf srv @ data\<rparr>
      in if length (buf srv) < headersize then Inr srv
         else
           let fresh = (expected srv = 0);
               (srv, type) =
                 (if fresh then (srv\<lparr>expected := un_le32 (buf srv)\<rparr>, buf srv ! 4)
                  else (srv, type))
           in if fresh \<and> expected srv = 0 then close E srv
              else if unat (expected srv) + headersize \<le> length (buf srv)
              then handle_frame E type srv
              else Inr srv)"

text \<open>
  The poll callback. What the library does with the readiness of the socket are the
  arguments \<open>incoming\<close> and \<open>outgoing\<close>: runs of the callbacks above.
\<close>

definition on_s3tp_event ::
    "s3tp_env \<Rightarrow> (s3tp_server \<Rightarrow> s3tp_server outcome) \<Rightarrow> (s3tp_server \<Rightarrow> s3tp_server outcome) \<Rightarrow>
     u32 \<Rightarrow> s3tp_server \<Rightarrow> s3tp_server outcome" where
  "on_s3tp_event E incoming outgoing events srv =
     and_then (if channel srv \<and> events AND UV_READABLE E \<noteq> 0 then incoming srv else Inr srv)
       (\<lambda>srv. and_then (if channel srv \<and> events AND UV_WRITABLE E \<noteq> 0 then outgoing srv else Inr srv)
         (\<lambda>srv. if channel srv then update_events E srv else Inr srv))"

subsection \<open>The invariant of the server\<close>

text \<open>
  A connected server polls its socket and has no timer running; a disconnected one has a
  timer running, so that it will try again. A process has pipes, and an expected length is
  that of the header in the buffer, whose frame is not complete.
\<close>

definition process_part_wf :: "s3tp_server \<Rightarrow> bool" where
  "process_part_wf srv \<longleftrightarrow> (\<forall>p. process srv = Some p \<longrightarrow> process_wf p \<and> has_in p \<noteq> None)"

definition link_wf :: "s3tp_server \<Rightarrow> bool" where
  "link_wf srv \<longleftrightarrow>
     (polling srv \<longleftrightarrow> channel srv) \<and> (timer srv = None \<longleftrightarrow> channel srv) \<and> process_part_wf srv"

definition reading_wf :: "s3tp_server \<Rightarrow> bool" where
  "reading_wf srv \<longleftrightarrow>
     (expected srv \<noteq> 0 \<longrightarrow>
        headersize \<le> length (buf srv) \<and> un_le32 (buf srv) = expected srv \<and>
        length (buf srv) < headersize + unat (expected srv))"

definition server_wf :: "s3tp_server \<Rightarrow> bool" where
  "server_wf srv \<longleftrightarrow> link_wf srv \<and> reading_wf srv"

lemma keeps_closuresD: "keeps_closures E \<Longrightarrow> closure_kept E h"
  by (simp add: keeps_closures_def)

named_theorems server_simps \<open>frame equations of the server's operations\<close>

lemma log_call_simps [server_simps]:
  "process_part_wf (log_call c srv) = process_part_wf srv"
  "link_wf (log_call c srv) = link_wf srv" "reading_wf (log_call c srv) = reading_wf srv"
  "server_wf (log_call c srv) = server_wf srv"
  "channel (log_call c srv) = channel srv" "process (log_call c srv) = process srv"
  "polling (log_call c srv) = polling srv" "timer (log_call c srv) = timer srv"
  "buf (log_call c srv) = buf srv" "expected (log_call c srv) = expected srv"
  "outbuf (log_call c srv) = outbuf srv" "trace (log_call c srv) = trace srv @ [c]"
  "orphans (log_call c srv) = orphans srv"
  by (simp_all add: log_call_def link_wf_def process_part_wf_def reading_wf_def server_wf_def)

lemma free_process_simps [simp]:
  "process (free_process srv) = None" "channel (free_process srv) = channel srv"
  "polling (free_process srv) = polling srv" "timer (free_process srv) = timer srv"
  "buf (free_process srv) = buf srv" "expected (free_process srv) = expected srv"
  "outbuf (free_process srv) = outbuf srv" "trace (free_process srv) = trace srv"
  by (simp_all add: free_process_def)

lemma free_process_None: "process srv = None \<Longrightarrow> free_process srv = srv"
  by (simp add: free_process_def)

text \<open>
  What the operations leave of the input side: they either keep it or reset it. The
  process is kept, up to starting, stopping and killing it, or dropped.
\<close>

definition keeps_input :: "s3tp_server \<Rightarrow> s3tp_server \<Rightarrow> bool" where
  "keeps_input srv srv' \<longleftrightarrow>
     buf srv' = buf srv \<and> expected srv' = expected srv \<or> buf srv' = [] \<and> expected srv' = 0"

lemma keeps_input_refl [simp]: "keeps_input srv srv"
  by (simp add: keeps_input_def)

lemma keeps_input_trans: "keeps_input s t \<Longrightarrow> keeps_input t u \<Longrightarrow> keeps_input s u"
  by (auto simp: keeps_input_def)

lemma keeps_input_reading: "keeps_input srv srv' \<Longrightarrow> reading_wf srv \<Longrightarrow> reading_wf srv'"
  by (auto simp: keeps_input_def reading_wf_def)

lemma update_events_wf:
  "update_events E srv = Inr srv' \<Longrightarrow> channel srv \<Longrightarrow> timer srv = None \<Longrightarrow> process_part_wf srv \<Longrightarrow>
     link_wf srv' \<and> keeps_input srv srv'"
  by (auto simp: update_events_def server_simps link_wf_def process_part_wf_def keeps_input_def)

text \<open>Reconnecting after the channel was dropped always returns, connected or with a timer.\<close>

lemma kill_wf [simp]: "process_wf (kill p) = process_wf p" "has_in (kill p) = has_in p"
  by (simp_all add: kill_def process_wf_def)

lemma output_wf [simp]:
  "process_wf (start_output p) = process_wf p" "has_in (start_output p) = has_in p"
  "process_wf (stop_output p) = process_wf p" "has_in (stop_output p) = has_in p"
  by (simp_all add: start_output_def stop_output_def process_wf_def)

lemma reconnect_yields:
  assumes "\<not> channel srv" and "\<not> polling srv" and "process_part_wf srv"
    and "timer srv = None \<or> process srv \<noteq> None"
  shows "yields (\<lambda>(b, srv'). link_wf srv' \<and> keeps_input srv srv') (reconnect E srv)"
proof (cases "process srv")
  case (Some p)
  with assms show ?thesis
    by (simp add: reconnect_def link_wf_def process_part_wf_def keeps_input_def)
next
  case None
  with assms show ?thesis
    by (simp add: reconnect_def Let_def link_wf_def process_part_wf_def keeps_input_def
        server_simps update_events_def)
qed

lemma close_yields:
  assumes "process_part_wf srv" and "timer srv = None"
  shows "yields (\<lambda>srv'. link_wf srv' \<and> keeps_input srv srv') (close E srv)"
proof -
  let ?s = "srv\<lparr>polling := False, channel := False\<rparr>"
  have "yields (\<lambda>(b, srv'). link_wf srv' \<and> keeps_input ?s srv') (reconnect E ?s)"
    using assms by (intro reconnect_yields) (simp_all add: process_part_wf_def)
  then show ?thesis
    unfolding close_def by (rule yields_and_then) (auto simp: keeps_input_def)
qed

lemma onDisconnected_close: "onDisconnected = close"
  by (intro ext) (simp add: onDisconnected_def close_def)

lemma on_timer_yields:
  assumes "link_wf srv"
  shows "yields (\<lambda>srv'. link_wf srv' \<and> keeps_input srv srv') (on_timer E srv)"
proof (cases "timer srv")
  case None
  with assms show ?thesis by (simp add: on_timer_def)
next
  case (Some cb)
  let ?s = "srv\<lparr>timer := None\<rparr>" and ?t = "free_process (srv\<lparr>timer := None\<rparr>)"
  have down: "\<not> channel srv" "\<not> polling srv" "process_part_wf srv"
    using assms Some by (auto simp: link_wf_def)
  have "yields (\<lambda>(b, srv'). link_wf srv' \<and> keeps_input ?s srv') (reconnect E ?s)"
    and "yields (\<lambda>(b, srv'). link_wf srv' \<and> keeps_input ?t srv') (reconnect E ?t)"
    using down by (intro reconnect_yields; simp add: process_part_wf_def)+
  then show ?thesis
    by (cases cb) (auto simp: on_timer_def Some keeps_input_def elim!: yields_and_then)
qed

lemma send_buf_wf:
  assumes "send_buf E srv = Inr (b, srv')" and "link_wf srv"
  shows "link_wf srv' \<and> keeps_input srv srv'"
proof (cases "channel srv")
  case True
  have up: "timer srv = None" "process_part_wf srv" "polling srv"
    using assms(2) True by (auto simp: link_wf_def)
  let ?s = "log_call (Send (outbuf srv) (send_result E (trace srv) (outbuf srv))) srv"
  have "yields (\<lambda>srv'. link_wf srv' \<and> keeps_input ?s srv') (close E ?s)"
    using up by (intro close_yields) (simp_all add: server_simps)
  then show ?thesis
    using assms up
    by (auto simp: send_buf_def Let_def outcome_simps yields_iff keeps_input_def server_simps
        stop_process_output_def link_wf_def process_part_wf_def disconnect_def split: if_splits)
next
  case False
  with assms show ?thesis by (simp add: send_buf_def split: if_splits)
qed

lemma send_wf:
  assumes "send E msg len ty srv = Inr srv'" and "link_wf srv"
  shows "link_wf srv' \<and> keeps_input srv srv'"
proof (cases "(len = 0 \<and> ty = NONE) \<or> \<not> channel srv")
  case True
  with assms show ?thesis by (auto simp: send_def split: if_splits)
next
  case False
  let ?s = "srv\<lparr>outbuf := outbuf srv @ le32 len @ [mt_byte ty] @ take (unat len) msg\<rparr>"
  from False assms(1) obtain b s1 where s1: "send_buf E ?s = Inr (b, s1)"
    and s2: "update_events E s1 = Inr srv'"
    by (auto simp: send_def outcome_simps)
  have "link_wf ?s"
    using assms(2) by (simp add: link_wf_def process_part_wf_def)
  from send_buf_wf [OF s1 this] have w: "link_wf s1" and k: "keeps_input ?s s1"
    by simp_all
  moreover have "channel s1"
    using s2 by (auto simp: update_events_def split: if_splits)
  ultimately have "link_wf srv' \<and> keeps_input s1 srv'"
    using update_events_wf [OF s2] by (auto simp: link_wf_def)
  then show ?thesis
    using k keeps_input_trans [of ?s s1 srv'] by (simp add: keeps_input_def)
qed

lemma drop_process_wf: "link_wf srv \<Longrightarrow> link_wf (srv\<lparr>process := None\<rparr>)"
  by (simp add: link_wf_def process_part_wf_def)

lemma set_process_wf:
  "link_wf srv \<Longrightarrow> process_wf p \<Longrightarrow> has_in p \<noteq> None \<Longrightarrow> link_wf (srv\<lparr>process := Some p\<rparr>)"
  by (simp add: link_wf_def process_part_wf_def)

lemma exit_callback_wf:
  assumes "exit_callback E code srv = Inr srv'" and "link_wf srv"
  shows "link_wf srv' \<and> keeps_input srv srv'"
proof -
  let ?t = "exit_text code"
  from assms(1) obtain s1 where s1: "send E ?t (word_of_nat (length ?t)) ENDOFFILE srv = Inr s1"
    and rest: "(if outbuf (s1\<lparr>process := None\<rparr>) \<noteq> []
      then and_then (send_buf E (s1\<lparr>process := None\<rparr>)) (\<lambda>(_, srv). Inr srv)
      else disconnect (s1\<lparr>process := None\<rparr>)) = Inr srv'"
    by (auto simp: exit_callback_def Let_def outcome_simps split: if_splits)
  have w: "link_wf s1" and k: "keeps_input srv s1"
    using send_wf [OF s1 assms(2)] by simp_all
  have "link_wf srv' \<and> keeps_input (s1\<lparr>process := None\<rparr>) srv'"
  proof (cases "outbuf s1 = []")
    case True
    with rest w show ?thesis
      by (auto simp: disconnect_def server_simps drop_process_wf keeps_input_def split: if_splits)
  next
    case False
    with rest obtain b where "send_buf E (s1\<lparr>process := None\<rparr>) = Inr (b, srv')"
      by (auto simp: outcome_simps)
    then show ?thesis
      by (rule send_buf_wf) (rule drop_process_wf [OF w])
  qed
  then show ?thesis
    using k keeps_input_trans [of srv "s1\<lparr>process := None\<rparr>" srv'] by (simp add: keeps_input_def)
qed

lemma start_command_wf:
  assumes "start_command E c srv = Inr srv'" and "link_wf srv"
  shows "link_wf srv'"
proof -
  let ?r = "spawn_result E (trace srv) c"
  obtain p ex where p: "Process_new ?r c True = (p, ex)"
    by force
  have pwf: "process_wf p" "has_in p \<noteq> None"
    using p Process_new_wf [of ?r c True] by (auto simp: Process_new_def Let_def split: if_splits)
  from assms(1) p obtain s1 s2 q where
    s1: "(if ex then exit_callback E (exit_code p) (log_call (Spawn c ?r) srv)
      else Inr (log_call (Spawn c ?r) srv)) = Inr s1"
    and s2: "send E [] 0 STARTED (s1\<lparr>process := Some p\<rparr>) = Inr s2"
    and q: "process s2 = Some q" and srv': "srv' = s2\<lparr>process := Some (start_output q)\<rparr>"
    by (auto simp: start_command_def Let_def outcome_simps split: option.splits)
  have "link_wf s1"
    using s1 assms(2) exit_callback_wf [of E "exit_code p" "log_call (Spawn c ?r) srv" s1]
    by (auto simp: server_simps split: if_splits)
  then have "link_wf s2"
    using send_wf [OF s2] pwf by (simp add: set_process_wf)
  then show ?thesis
    using q by (simp add: srv' link_wf_def process_part_wf_def)
qed

lemma input_wf:
  assumes "process_wf p" and "has_in p = Some b"
  shows "yields (\<lambda>q. process_wf q \<and> has_in q \<noteq> None) (close_input p)"
    and "yields (\<lambda>q. process_wf q \<and> has_in q \<noteq> None) (input d p)"
  using assms by (auto simp: close_input_def input_def process_wf_def split: bool.split)

lemma handle_frame_wf:
  assumes "handle_frame E ty srv = Inr srv'" and "link_wf srv"
  shows "server_wf srv'"
proof -
  let ?data = "take (unat (expected srv)) (drop headersize (buf srv))"
  from assms(1) obtain s1 s2 where
    s1: "(case process srv of
        Some p \<Rightarrow> if ty = mt_byte ENDOFFILE
          then and_then (close_input p) (\<lambda>p. Inr (srv\<lparr>process := Some p\<rparr>))
          else and_then (input ?data p) (\<lambda>p. Inr (srv\<lparr>process := Some p\<rparr>))
      | None \<Rightarrow> start_command E ?data srv) = Inr s1"
    and s2: "erase_front (headersize + unat (expected s1)) s1 = Inr s2"
    and srv': "srv' = s2\<lparr>expected := 0\<rparr>"
    by (auto simp: handle_frame_def and_then_eq_Inr)
  have "link_wf s1"
  proof (cases "process srv")
    case None
    with s1 assms(2) show ?thesis by (auto intro: start_command_wf)
  next
    case (Some p)
    then obtain b where p: "process_wf p" "has_in p = Some b"
      using assms(2) by (auto simp: link_wf_def process_part_wf_def)
    from s1 Some obtain q where "s1 = srv\<lparr>process := Some q\<rparr>" "process_wf q" "has_in q \<noteq> None"
      using input_wf(1) [OF p] input_wf(2) [OF p, of ?data]
      by (auto simp: and_then_eq_Inr yields_iff split: if_splits)
    then show ?thesis using assms(2) by (auto intro: set_process_wf)
  qed
  then show ?thesis
    using s2 by (auto simp: srv' server_wf_def reading_wf_def erase_front_def link_wf_def
        process_part_wf_def split: if_splits)
qed

text \<open>The header as the call sees it: freshly read, or left by an earlier call.\<close>

definition header :: "char \<Rightarrow> string \<Rightarrow> s3tp_server \<Rightarrow> u32 \<times> char" where
  "header g b srv = (if expected srv = 0 then (un_le32 b, b ! 4) else (expected srv, g))"

lemma onDataReceived_cases:
  assumes "b = buf srv @ data" and "header g b srv = (x, ty)"
  shows "onDataReceived E g data srv =
    (if length b < headersize then Inr (srv\<lparr>buf := b\<rparr>)
     else if x = 0 then close E (srv\<lparr>buf := b, expected := 0\<rparr>)
     else if length b < headersize + unat x then Inr (srv\<lparr>buf := b, expected := x\<rparr>)
     else handle_frame E ty (srv\<lparr>buf := b, expected := x\<rparr>))"
  using assms(2)
  by (cases "expected srv = 0") (auto simp: onDataReceived_def header_def Let_def assms(1))

lemma onDataReceived_wf:
  assumes "onDataReceived E g data srv = Inr srv'" and "server_wf srv" and "channel srv"
  shows "server_wf srv'"
proof -
  have link: "link_wf srv" and up: "timer srv = None" "process_part_wf srv"
    using assms(2,3) by (auto simp: server_wf_def link_wf_def)
  define b where "b = buf srv @ data"
  obtain x ty where h: "header g b srv = (x, ty)"
    by force
  note eq = onDataReceived_cases [OF b_def h]
  have lw: "link_wf (srv\<lparr>buf := b, expected := y\<rparr>)" "link_wf (srv\<lparr>buf := b\<rparr>)" for y
    using link by (simp_all add: link_wf_def process_part_wf_def)
  consider "length b < headersize" | "headersize \<le> length b" "x = 0"
    | "headersize \<le> length b" "x \<noteq> 0" "length b < headersize + unat x"
    | "headersize \<le> length b" "x \<noteq> 0" "headersize + unat x \<le> length b"
    by linarith
  then show ?thesis
  proof cases
    case 1
    then have "expected srv = 0"
      using assms(2) by (auto simp: b_def server_wf_def reading_wf_def)
    moreover have "srv' = srv\<lparr>buf := b\<rparr>"
      using 1 assms(1) by (simp add: eq)
    ultimately show ?thesis
      using lw(2) by (simp add: server_wf_def reading_wf_def)
  next
    case 2
    let ?s = "srv\<lparr>buf := b, expected := 0\<rparr>"
    have "yields (\<lambda>srv'. link_wf srv' \<and> keeps_input ?s srv') (close E ?s)"
      using up by (intro close_yields) (simp_all add: process_part_wf_def)
    moreover have "reading_wf ?s"
      by (simp add: reading_wf_def)
    ultimately show ?thesis
      using 2 assms(1) by (auto simp: eq server_wf_def dest: keeps_input_reading)
  next
    case 3
    then have "un_le32 b = x"
      using assms(2) h
      by (auto simp: header_def server_wf_def reading_wf_def b_def un_le32_append headersize_def
          split: if_splits)
    moreover have "srv' = srv\<lparr>buf := b, expected := x\<rparr>"
      using 3 assms(1) by (simp add: eq)
    ultimately show ?thesis
      using 3 lw(1) by (simp add: server_wf_def reading_wf_def)
  next
    case 4
    with assms(1) show ?thesis
      using handle_frame_wf [OF _ lw(1)] by (simp add: eq)
  qed
qed

lemma process_exited_wf:
  assumes "process_exited E status sig srv = Inr srv'" and "server_wf srv"
  shows "server_wf srv'"
proof -
  from assms(1) obtain p q run where p: "process srv = Some p"
    and q: "exit_cb status sig p = Inr (q, run)"
    and rest: "(if run then exit_callback E (exit_code q) (srv\<lparr>process := Some q\<rparr>)
      else Inr (srv\<lparr>process := Some q\<rparr>)) = Inr srv'"
    by (auto simp: process_exited_def Let_def outcome_simps split: option.splits)
  have pwf: "process_wf p" "has_in p \<noteq> None"
    using assms(2) p by (auto simp: server_wf_def link_wf_def process_part_wf_def)
  have "process_wf q" and "has_in q \<noteq> None"
    using exit_cb_yields [OF pwf(1), of status sig] exit_cb_has_in [OF q pwf(2)] q
    by (simp_all)
  then have "link_wf (srv\<lparr>process := Some q\<rparr>)"
    using assms(2) by (simp add: server_wf_def set_process_wf)
  then have "link_wf srv' \<and> keeps_input srv srv'"
    using rest exit_callback_wf [of E "exit_code q" "srv\<lparr>process := Some q\<rparr>" srv']
    by (auto simp: keeps_input_def split: if_splits)
  then show ?thesis
    using assms(2) by (auto simp: server_wf_def dest: keeps_input_reading)
qed

subsection \<open>Runs of the server\<close>

text \<open>
  The library calls back only on a channel that exists; the timer and the process are
  libuv's, and a process that has exited does not exit again.
\<close>

inductive server_step :: "s3tp_env \<Rightarrow> s3tp_server \<Rightarrow> s3tp_server \<Rightarrow> bool" for E where
  data_received: "channel srv \<Longrightarrow> onDataReceived E g data srv = Inr srv' \<Longrightarrow> server_step E srv srv'"
| disconnected: "channel srv \<Longrightarrow> onDisconnected E srv = Inr srv' \<Longrightarrow> server_step E srv srv'"
| buffer_full: "channel srv \<Longrightarrow> onBufferFull srv = Inr srv' \<Longrightarrow> server_step E srv srv'"
| buffer_empty: "channel srv \<Longrightarrow> onBufferEmpty E srv = Inr srv' \<Longrightarrow> server_step E srv srv'"
| event_done: "channel srv \<Longrightarrow> update_events E srv = Inr srv' \<Longrightarrow> server_step E srv srv'"
| timer_fired: "timer srv \<noteq> None \<Longrightarrow> on_timer E srv = Inr srv' \<Longrightarrow> server_step E srv srv'"
| output_read: "process srv \<noteq> None \<Longrightarrow> read_callback E is_out n base srv = Inr srv' \<Longrightarrow>
    server_step E srv srv'"
| child_exited: "process srv = Some p \<Longrightarrow> running p \<Longrightarrow> process_exited E status sig srv = Inr srv' \<Longrightarrow>
    server_step E srv srv'"

inductive_cases server_stepE: "server_step E srv srv'"

inductive server_reachable :: "s3tp_env \<Rightarrow> int \<Rightarrow> string \<Rightarrow> s3tp_server \<Rightarrow> bool" for E port socketpath where
  started: "start E (S3TPServer_new port socketpath) = Inr (b, srv) \<Longrightarrow> server_reachable E port socketpath srv"
| stepped: "server_reachable E port socketpath srv \<Longrightarrow> server_step E srv srv' \<Longrightarrow>
    server_reachable E port socketpath srv'"

lemma start_yields:
  "yields (\<lambda>(b, srv). server_wf srv) (start E (S3TPServer_new port socketpath))"
proof -
  let ?s = "S3TPServer_new port socketpath"
  have "yields (\<lambda>(b, srv). link_wf srv \<and> keeps_input ?s srv) (reconnect E ?s)"
    by (rule reconnect_yields) (simp_all add: S3TPServer_new_def process_part_wf_def)
  moreover have "reading_wf ?s"
    by (simp add: S3TPServer_new_def reading_wf_def)
  ultimately show ?thesis
    unfolding start_def
    by (auto elim!: yields_mono simp: server_wf_def dest: keeps_input_reading)
qed

lemma server_step_wf:
  assumes "server_step E srv srv'" and "server_wf srv"
  shows "server_wf srv'"
proof -
  have keep: "server_wf srv'" if "link_wf srv' \<and> keeps_input srv srv'"
    using that assms(2) by (auto simp: server_wf_def dest: keeps_input_reading)
  have link: "link_wf srv" "channel srv \<Longrightarrow> timer srv = None" "process_part_wf srv"
    using assms(2) by (auto simp: server_wf_def link_wf_def)
  show ?thesis
    using assms(1)
  proof cases
    case data_received
    with assms(2) show ?thesis by (blast intro: onDataReceived_wf)
  next
    case disconnected
    with link close_yields [of srv E] show ?thesis
      by (auto simp: onDisconnected_close intro!: keep)
  next
    case buffer_full
    then have "srv' = srv\<lparr>process := map_option stop_output (process srv)\<rparr>"
      by (simp add: onBufferFull_def stop_process_output_def)
    then show ?thesis
      using link(1) by (intro keep) (auto simp: link_wf_def process_part_wf_def keeps_input_def)
  next
    case buffer_empty
    let ?s = "srv\<lparr>process := map_option start_output (process srv)\<rparr>"
    have "link_wf ?s"
      using link(1) by (auto simp: link_wf_def process_part_wf_def)
    moreover obtain b where "send_buf E ?s = Inr (b, srv')"
      using buffer_empty by (auto simp: onBufferEmpty_def outcome_simps)
    ultimately show ?thesis
      using send_buf_wf [of E ?s b srv'] by (intro keep) (simp add: keeps_input_def)
  next
    case event_done
    with link show ?thesis by (intro keep) (blast dest: update_events_wf)
  next
    case timer_fired
    with on_timer_yields [OF link(1), of E] show ?thesis by (auto intro: keep)
  next
    case (output_read is_out n base)
    with link(1) show ?thesis
      by (auto simp: read_callback_def intro!: keep dest!: send_wf split: if_splits)
  next
    case child_exited
    with assms(2) show ?thesis by (blast intro: process_exited_wf)
  qed
qed

lemma server_reachable_wf_lemma: "server_reachable E port socketpath srv \<Longrightarrow> server_wf srv"
proof (induction rule: server_reachable.induct)
  case (started b srv)
  with start_yields [of E port socketpath] show ?case by simp
next
  case (stepped srv srv')
  then show ?case by (blast intro: server_step_wf)
qed

end
