(* ===== verification/S3tpSession.thy ===== *)
theory S3tpSession
  imports S3tp
begin

text \<open>
  Sessions of the S3TP server: what a client gets for the bytes it sends. The first part
  holds for a link that takes everything it is given; the rest are the ways in which a
  session goes wrong.
\<close>

subsection \<open>Observations\<close>

definition accepted :: "s3tp_env \<Rightarrow> s3tp_call \<Rightarrow> string" where
  "accepted E c =
     (case c of Send d r \<Rightarrow> if r = ERROR_BUFFER_FULL E \<or> r < 0 then [] else d | _ \<Rightarrow> [])"

definition sent :: "s3tp_env \<Rightarrow> s3tp_server \<Rightarrow> string" where
  "sent E srv = concat (map (accepted E) (trace srv))"

definition spawned :: "s3tp_server \<Rightarrow> string list" where
  "spawned srv = concat (map (\<lambda>c. case c of Spawn l r \<Rightarrow> [l] | _ \<Rightarrow> []) (trace srv))"

definition disconnects :: "s3tp_server \<Rightarrow> nat" where
  "disconnects srv = length (filter (\<lambda>c. c = Disconnect) (trace srv))"

lemma observe_log [server_simps]:
  "sent E (log_call c srv) = sent E srv @ accepted E c"
  "spawned (log_call c srv) = spawned srv @ (case c of Spawn l r \<Rightarrow> [l] | _ \<Rightarrow> [])"
  "disconnects (log_call c srv) = disconnects srv + (if c = Disconnect then 1 else 0)"
  by (simp_all add: sent_def spawned_def disconnects_def log_call_def)

lemma observe_update [server_simps]:
  "sent E (srv\<lparr>buf := b\<rparr>) = sent E srv" "sent E (srv\<lparr>expected := n\<rparr>) = sent E srv"
  "sent E (srv\<lparr>process := p\<rparr>) = sent E srv" "sent E (srv\<lparr>outbuf := b\<rparr>) = sent E srv"
  "sent E (srv\<lparr>polling := q\<rparr>) = sent E srv"
  "spawned (srv\<lparr>buf := b\<rparr>) = spawned srv" "spawned (srv\<lparr>expected := n\<rparr>) = spawned srv"
  "spawned (srv\<lparr>process := p\<rparr>) = spawned srv" "spawned (srv\<lparr>outbuf := b\<rparr>) = spawned srv"
  "spawned (srv\<lparr>polling := q\<rparr>) = spawned srv"
  "disconnects (srv\<lparr>buf := b\<rparr>) = disconnects srv" "disconnects (srv\<lparr>expected := n\<rparr>) = disconnects srv"
  "disconnects (srv\<lparr>process := p\<rparr>) = disconnects srv" "disconnects (srv\<lparr>outbuf := b\<rparr>) = disconnects srv"
  "disconnects (srv\<lparr>polling := q\<rparr>) = disconnects srv"
  by (simp_all add: sent_def spawned_def disconnects_def)

subsection \<open>A reliable link\<close>

definition reliable_link :: "s3tp_env \<Rightarrow> bool" where
  "reliable_link E \<longleftrightarrow>
     (\<forall>h d. 0 \<le> send_result E h d \<and> send_result E h d \<noteq> ERROR_BUFFER_FULL E)"

text \<open>
  \<open>delivered E d n srv s\<close>: from \<open>srv\<close> to \<open>s\<close> the library took the bytes \<open>d\<close>, and was asked \<open>n\<close>
  times to disconnect; nothing is left to send and the input side is as it was.
\<close>

definition delivered :: "s3tp_env \<Rightarrow> string \<Rightarrow> nat \<Rightarrow> s3tp_server \<Rightarrow> s3tp_server \<Rightarrow> bool" where
  "delivered E d n srv s \<longleftrightarrow>
     sent E s = sent E srv @ d \<and> disconnects s = disconnects srv + n \<and>
     spawned s = spawned srv \<and> outbuf s = [] \<and> channel s \<and> timer s = timer srv \<and>
     process s = process srv \<and> buf s = buf srv \<and> expected s = expected srv"

lemma send_buf_delivers:
  assumes "reliable_link E" and "channel srv" and "outbuf srv \<noteq> []"
  shows "yields (\<lambda>(b, s). b \<and> delivered E (outbuf srv) (if process srv = None then 1 else 0) srv s)
    (send_buf E srv)"
proof -
  have r: "send_result E (trace srv) (outbuf srv) \<noteq> ERROR_BUFFER_FULL E"
    "\<not> send_result E (trace srv) (outbuf srv) < 0"
    using assms(1) by (simp_all add: reliable_link_def not_less)
  then show ?thesis
    using assms(2,3)
    by (simp add: send_buf_def Let_def disconnect_def delivered_def server_simps accepted_def)
qed

lemma send_delivers:
  assumes "reliable_link E" and "channel srv" and "framable msg" and "ty \<noteq> NONE"
  shows "yields (delivered E (outbuf srv @ frame ty msg) (if process srv = None then 1 else 0) srv)
    (send E msg (word_of_nat (length msg)) ty srv)"
proof -
  let ?s = "srv\<lparr>outbuf := outbuf srv @ frame ty msg\<rparr>"
  let ?n = "if process srv = None then 1 else 0"
  have eq: "send E msg (word_of_nat (length msg)) ty srv =
      and_then (send_buf E ?s) (\<lambda>(_, srv). update_events E srv)"
    using assms(2-4) by (simp add: send_def Let_def frame_def unat_frame_length)
  have "frame ty msg \<noteq> []"
    by (simp add: frame_def)
  then have "yields (\<lambda>(b, s). b \<and> delivered E (outbuf srv @ frame ty msg) ?n ?s s) (send_buf E ?s)"
    using send_buf_delivers [OF assms(1), of ?s] assms(2) by simp
  then show ?thesis
    unfolding eq
    by (rule yields_and_then)
      (auto simp: delivered_def update_events_def server_simps accepted_def)
qed

subsection \<open>Completion of a command\<close>

lemma exit_text_framable:
  assumes "length (show_int code) < 100"
  shows "framable (exit_text code)"
  using assms by (simp add: framable_def exit_text_def)

lemma exit_callback_delivers:
  assumes "reliable_link E" and "channel srv" and "framable (exit_text code)"
    and "process srv = None \<or> keeps_closures E"
  shows "yields (\<lambda>s. sent E s = sent E srv @ outbuf srv @ frame ENDOFFILE (exit_text code) \<and>
      disconnects s = disconnects srv + (if process srv = None then 2 else 1) \<and>
      spawned s = spawned srv \<and> outbuf s = [] \<and> channel s \<and> timer s = timer srv \<and>
      process s = None \<and> buf s = buf srv \<and> expected s = expected srv)
    (exit_callback E code srv)"
  unfolding exit_callback_def
  by (rule yields_and_then [OF send_delivers [OF assms(1-3)]])
    (use assms(4) in \<open>auto simp: Let_def delivered_def disconnect_def server_simps accepted_def keeps_closuresD\<close>)

subsection \<open>A command in any number of pieces\<close>

definition can_spawn :: "s3tp_env \<Rightarrow> bool" where
  "can_spawn E \<longleftrightarrow> (\<forall>h l. spawn_result E h l = 0)"

text \<open>Pieces of data arriving one after the other, each call with its own garbage.\<close>

fun receive :: "s3tp_env \<Rightarrow> (char \<times> string) list \<Rightarrow> s3tp_server \<Rightarrow> s3tp_server outcome" where
  "receive E [] srv = Inr srv"
| "receive E ((g, data) # cs) srv = and_then (onDataReceived E g data srv) (receive E cs)"

text \<open>The server between the pieces of a frame: \<open>pre\<close> has arrived, of a frame with \<open>n\<close> bytes of data.\<close>

definition awaiting :: "string \<Rightarrow> u32 \<Rightarrow> s3tp_server \<Rightarrow> s3tp_server" where
  "awaiting pre n srv =
     srv\<lparr>buf := pre, expected := (if length pre < headersize then 0 else n)\<rparr>"

lemma awaiting_sel [simp]:
  "buf (awaiting pre n srv) = pre" "channel (awaiting pre n srv) = channel srv"
  "process (awaiting pre n srv) = process srv"
  by (simp_all add: awaiting_def)

text \<open>What one call does with the next piece of a frame.\<close>

lemma receive_piece:
  assumes "frame t msg = pre @ data @ post" and "framable msg" and "msg \<noteq> []"
    and "pre = [] \<or> data @ post \<noteq> []"
  defines "n \<equiv> word_of_nat (length msg)"
  shows "onDataReceived E g data (awaiting pre n srv) =
    (if post = []
     then handle_frame E (if length pre < headersize then mt_byte t else g)
            (srv\<lparr>buf := frame t msg, expected := n\<rparr>)
     else Inr (awaiting (pre @ data) n srv))"
proof -
  have n: "n \<noteq> 0" "unat n = length msg"
    using assms(2,3) by (simp_all add: n_def frame_length_zero unat_frame_length)
  have len: "headersize + length msg = length pre + length data + length post"
    using arg_cong [OF assms(1), of length] by simp
  show ?thesis
  proof (cases "length (pre @ data) < headersize")
    case True
    then have "post \<noteq> []" using len by auto
    moreover have "length pre < headersize" using True by simp
    ultimately show ?thesis
      using True by (simp add: onDataReceived_def awaiting_def Let_def)
  next
    case False
    then have hd: "un_le32 (pre @ data) = n" "(pre @ data) ! 4 = mt_byte t"
      using frame_prefix_header [of t msg "pre @ data" post] assms(1) by (simp_all add: n_def)
    have h: "header g (pre @ data) (awaiting pre n srv) =
        (n, if length pre < headersize then mt_byte t else g)"
      using hd n(1) by (simp add: header_def awaiting_def)
    have "length (pre @ data) < headersize + unat n \<longleftrightarrow> post \<noteq> []"
      using len n(2) by auto
    then show ?thesis
      using onDataReceived_cases [OF _ h, of data] False n(1) assms(1)
      by (auto simp: awaiting_def)
  qed
qed

lemma receive_nothing:
  assumes "buf srv = []" and "\<forall>c\<in>set cs. snd c = []"
  shows "receive E cs srv = Inr srv"
  using assms(2)
proof (induction cs)
  case (Cons c cs)
  have "onDataReceived E g [] srv = Inr srv" for g
    using assms(1) by (simp add: onDataReceived_def headersize_def)
  with Cons show ?case by (cases c) simp
qed simp

text \<open>
  When no process runs, the type of the frame does not matter, and so neither does the
  garbage: the frame arrives in any number of pieces as it would in one.
\<close>

lemma handle_frame_start:
  assumes "process srv = None"
  shows "handle_frame E ty srv = handle_frame E ty' srv"
  using assms by (simp add: handle_frame_def)

lemma receive_pieces:
  assumes "process srv = None" and "framable msg" and "msg \<noteq> []"
    and "frame t msg = pre @ concat (map snd cs)" and "concat (map snd cs) \<noteq> []"
  defines "n \<equiv> word_of_nat (length msg)"
  shows "\<exists>cs'. (\<forall>c\<in>set cs'. snd c = []) \<and>
    receive E cs (awaiting pre n srv) =
      and_then (handle_frame E (mt_byte t) (srv\<lparr>buf := frame t msg, expected := n\<rparr>)) (receive E cs')"
  using assms(4,5)
proof (induction cs arbitrary: pre)
  case (Cons c cs)
  obtain g data where c: "c = (g, data)" by force
  have fr: "frame t msg = pre @ data @ concat (map snd cs)"
    and ne: "data @ concat (map snd cs) \<noteq> []"
    using Cons.prems by (simp_all add: c)
  note piece = receive_piece [OF fr assms(2,3) disjI2 [OF ne], folded n_def, of E g srv]
  show ?case
  proof (cases "concat (map snd cs) = []")
    case True
    then have "\<forall>c\<in>set cs. snd c = []" by auto
    moreover have "handle_frame E (if length pre < headersize then mt_byte t else g)
        (srv\<lparr>buf := frame t msg, expected := n\<rparr>) =
      handle_frame E (mt_byte t) (srv\<lparr>buf := frame t msg, expected := n\<rparr>)"
      using assms(1) by (intro handle_frame_start) simp
    ultimately show ?thesis
      using piece True by (auto simp: c)
  next
    case False
    then have "receive E (c # cs) (awaiting pre n srv) = receive E cs (awaiting (pre @ data) n srv)"
      using piece by (simp only: c receive.simps if_not_P [OF False] and_then_Inr if_False)
    moreover have "frame t msg = (pre @ data) @ concat (map snd cs)"
      using fr by simp
    ultimately show ?thesis
      using Cons.IH [of "pre @ data"] False by simp
  qed
qed simp

lemma start_command_delivers:
  assumes "reliable_link E" and "can_spawn E" and "channel srv" and "outbuf srv = []"
  shows "yields (\<lambda>s. (\<exists>p. process s = Some p \<and> cmd p = c \<and> running p \<and> reading p \<and> pipes_open p \<and>
        process_wf p \<and> has_in p = Some True \<and> written p = []) \<and>
      sent E s = sent E srv @ frame STARTED [] \<and> spawned s = spawned srv @ [c] \<and>
      disconnects s = disconnects srv \<and> outbuf s = [] \<and> channel s \<and>
      buf s = buf srv \<and> expected s = expected srv)
    (start_command E c srv)"
proof -
  define p where "p = fst (Process_new 0 c True)"
  have p: "Process_new 0 c True = (p, False)" and run: "running (start_output p)" "cmd (start_output p) = c"
    "reading (start_output p)" "pipes_open (start_output p)" "process_wf (start_output p)" "has_in (start_output p) = Some True"
    "written (start_output p) = []"
    by (simp_all add: p_def Process_new_def Let_def process_wf_def start_output_def)
  let ?s = "log_call (Spawn c 0) srv\<lparr>process := Some p\<rparr>"
  have "framable []" by (simp add: framable_def)
  then have "yields (delivered E (frame STARTED []) 0 ?s) (send E [] 0 STARTED ?s)"
    using send_delivers [OF assms(1), of ?s "[]" STARTED] assms(3,4) by (simp add: server_simps)
  moreover have "spawn_result E (trace srv) c = 0"
    using assms(2) by (simp add: can_spawn_def)
  ultimately show ?thesis
    by (auto simp: start_command_def Let_def p run delivered_def server_simps
        accepted_def simp del: output_wf split: option.split intro!: yields_and_then)
qed

lemma command_received:
  assumes "reliable_link E" and "can_spawn E" and "channel srv" and "process srv = None"
    and "outbuf srv = []" and "framable c" and "c \<noteq> []"
  shows "yields (\<lambda>s. (\<exists>p. process s = Some p \<and> cmd p = c \<and> running p \<and> reading p \<and> pipes_open p \<and>
        process_wf p \<and> has_in p = Some True \<and> written p = []) \<and>
      sent E s = sent E srv @ frame STARTED [] \<and> spawned s = spawned srv @ [c] \<and>
      disconnects s = disconnects srv \<and> outbuf s = [] \<and> channel s \<and> buf s = [] \<and> expected s = 0)
    (handle_frame E ty (srv\<lparr>buf := frame t c, expected := word_of_nat (length c)\<rparr>))"
proof -
  let ?s = "srv\<lparr>buf := frame t c, expected := word_of_nat (length c)\<rparr>"
  have n: "unat (word_of_nat (length c) :: u32) = length c"
    by (rule unat_frame_length [OF assms(6)])
  have "yields (\<lambda>s. (\<exists>p. process s = Some p \<and> cmd p = c \<and> running p \<and> reading p \<and> pipes_open p \<and>
        process_wf p \<and> has_in p = Some True \<and> written p = []) \<and>
      sent E s = sent E ?s @ frame STARTED [] \<and> spawned s = spawned ?s @ [c] \<and>
      disconnects s = disconnects ?s \<and> outbuf s = [] \<and> channel s \<and>
      buf s = buf ?s \<and> expected s = expected ?s) (start_command E c ?s)"
    using assms(3,5) by (intro start_command_delivers [OF assms(1,2)]) simp_all
  moreover have eq: "handle_frame E ty ?s = and_then (start_command E c ?s)
      (\<lambda>srv. and_then (erase_front (headersize + unat (expected srv)) srv)
        (\<lambda>srv. Inr (srv\<lparr>expected := 0\<rparr>)))"
    using assms(4) by (simp add: handle_frame_def n frame_simps)
  ultimately show ?thesis
    unfolding eq by (elim yields_and_then) (auto simp: erase_front_def server_simps n)
qed

lemma pieces_received:
  assumes "reliable_link E" and "can_spawn E" and "channel srv" and "process srv = None"
    and "buf srv = []" and "expected srv = 0" and "outbuf srv = []"
    and "framable c" and "c \<noteq> []" and "concat (map snd cs) = frame t c"
  shows "yields (\<lambda>s. (\<exists>p. process s = Some p \<and> cmd p = c \<and> running p \<and> reading p \<and> pipes_open p \<and>
        process_wf p \<and> has_in p = Some True \<and> written p = []) \<and>
      spawned s = spawned srv @ [c] \<and> sent E s = sent E srv @ frame STARTED [] \<and>
      outbuf s = [] \<and> channel s \<and> buf s = [] \<and> expected s = 0)
    (receive E cs srv)"
proof -
  let ?n = "word_of_nat (length c) :: u32"
  have srv: "awaiting [] ?n srv = srv"
    using assms(5,6) by (simp add: awaiting_def headersize_def)
  have ne: "concat (map snd cs) \<noteq> []"
    using assms(10) by (simp add: frame_def)
  obtain cs' where empty: "\<forall>x\<in>set cs'. snd x = []"
    and eq: "receive E cs srv = and_then
      (handle_frame E (mt_byte t) (srv\<lparr>buf := frame t c, expected := ?n\<rparr>)) (receive E cs')"
    using receive_pieces [OF assms(4,8,9) _ ne, of t "[]" E] assms(10) by (auto simp: srv)
  show ?thesis
    unfolding eq
    by (rule yields_and_then [OF command_received [OF assms(1-4,7-9)]])
      (simp add: receive_nothing empty)
qed

subsection \<open>Input to a running process\<close>

lemma frame_handled:
  assumes "process srv = Some p" and "has_in p = Some True" and "framable d"
  shows "handle_frame E ty (srv\<lparr>buf := frame t d @ rest, expected := word_of_nat (length d)\<rparr>) =
    Inr (srv\<lparr>buf := rest, expected := 0, process := Some
      (if ty = mt_byte ENDOFFILE then p\<lparr>has_in := Some False\<rparr> else p\<lparr>written := written p @ [d]\<rparr>)\<rparr>)"
  using assms
  by (simp add: handle_frame_def close_input_def input_def unat_frame_length erase_front_def)

subsection \<open>Output of a running process\<close>

text \<open>The chunks of output that libuv reads, each from one of the two pipes.\<close>

definition out_type :: "bool \<Rightarrow> message_type" where
  "out_type is_out = (if is_out then STDOUT else STDERR)"

fun outputs :: "s3tp_env \<Rightarrow> (bool \<times> string) list \<Rightarrow> s3tp_server \<Rightarrow> s3tp_server outcome" where
  "outputs E [] srv = Inr srv"
| "outputs E ((is_out, d) # os) srv =
     and_then (read_callback E is_out (int (length d)) d srv) (outputs E os)"

lemma outputs_delivered:
  assumes "reliable_link E" and "channel srv" and "outbuf srv = []" and "process srv = Some p"
    and "\<forall>(_, d)\<in>set os. framable d"
  shows "yields (delivered E (concat (map (\<lambda>(b, d). if d = [] then [] else frame (out_type b) d) os)) 0 srv)
    (outputs E os srv)"
  using assms(2-)
proof (induction os arbitrary: srv)
  case Nil
  then show ?case by (simp add: delivered_def)
next
  case (Cons o1 os)
  obtain b d where o1: "o1 = (b, d)" by force
  show ?case
  proof (cases "d = []")
    case True
    with Cons show ?thesis by (simp add: o1 read_callback_def)
  next
    case False
    have n: "word_of_int (int (length d)) = (word_of_nat (length d) :: u32)"
      by simp
    have "yields (delivered E (frame (out_type b) d) 0 srv)
        (read_callback E b (int (length d)) d srv)"
      using send_delivers [OF assms(1) Cons.prems(1), of d "out_type b"] Cons.prems False
      by (simp add: read_callback_def out_type_def o1 split: if_splits)
    then obtain s1 where s1: "read_callback E b (int (length d)) d srv = Inr s1"
      and d1: "delivered E (frame (out_type b) d) 0 srv s1"
      by (auto simp: yields_iff)
    have "yields (delivered E (concat (map (\<lambda>(b, d). if d = [] then [] else frame (out_type b) d) os)) 0 s1)
        (outputs E os s1)"
      using Cons.prems d1 by (intro Cons.IH) (auto simp: delivered_def)
    then show ?thesis
      using d1 False by (auto simp: o1 s1 delivered_def elim!: yields_mono)
  qed
qed

subsection \<open>Sessions that go wrong\<close>

lemma close_with_process:
  "process srv = Some p \<Longrightarrow> close E srv =
     Inr (srv\<lparr>polling := False, channel := False, process := Some (kill p), timer := Some WaitForKill\<rparr>)"
  by (simp add: close_def reconnect_def)

lemma zero_length_frame:
  assumes "expected srv = 0" and "buf srv = []"
  shows "onDataReceived E g (frame t []) srv = close E (srv\<lparr>buf := frame t [], expected := 0\<rparr>)"
proof -
  have "header g (frame t []) srv = (0, mt_byte t)"
    using assms(1) by (simp add: header_def frame_simps(1,2))
  from onDataReceived_cases [OF _ this, of "frame t []" E] assms show ?thesis
    by simp
qed

lemma exit_callback_no_channel:
  assumes "\<not> channel srv"
  shows "exit_callback E code srv =
      Inl (if process srv = None \<or> closure_kept E (trace srv) then NullDeref else UseAfterFree)"
  using assms by (simp add: exit_callback_def send_def Let_def send_buf_def disconnect_def)

lemma failed_send_crashes:
  assumes "channel srv" and "process srv = Some p" and "ty \<noteq> NONE"
    and "send_result E (trace srv) (outbuf srv @ le32 n @ [mt_byte ty] @ take (unat n) msg) = r"
    and "r < 0" and "r \<noteq> ERROR_BUFFER_FULL E"
  shows "send E msg n ty srv = Inl NullDeref"
  using assms
  by (simp add: send_def Let_def send_buf_def close_with_process update_events_def server_simps)

lemma on_timer_frees:
  assumes "timer srv = Some WaitForKill" and "\<not> channel srv" and "\<not> polling srv"
  shows "yields (\<lambda>s. process s = None) (on_timer E srv)"
  using assms by (simp add: on_timer_def reconnect_def Let_def update_events_def server_simps)

lemma spawn_failed_session:
  assumes "reliable_link E" and "channel srv" and "outbuf srv = []" and "process srv = None"
    and "spawn_result E (trace srv) c \<noteq> 0"
  shows "yields (\<lambda>s. (\<exists>p. process s = Some p \<and> \<not> running p) \<and>
      sent E s = sent E srv @ frame ENDOFFILE (exit_text (- 1)) @ frame STARTED [] \<and>
      disconnects s = disconnects srv + 2)
    (start_command E c srv)"
proof -
  let ?r = "spawn_result E (trace srv) c"
  obtain p where p: "Process_new ?r c True = (p, True)" and dead: "\<not> running p" "exit_code p = - 1"
    using assms(5) by (simp add: Process_new_def Let_def)
  let ?s = "log_call (Spawn c ?r) srv"
  have fr: "framable (exit_text (- 1))" "framable []"
    by (simp_all add: framable_def exit_text_def show_int_def show_nat.simps)
  have one: "yields (\<lambda>s. sent E s = sent E srv @ frame ENDOFFILE (exit_text (- 1)) \<and>
      disconnects s = disconnects srv + 2 \<and> outbuf s = [] \<and> channel s) (exit_callback E (- 1) ?s)"
    using exit_callback_delivers [OF assms(1) _ fr(1), of ?s] assms(2-4)
    by (auto simp: server_simps accepted_def elim!: yields_mono)
  have two: "yields (delivered E (frame STARTED []) 0 (s\<lparr>process := Some p\<rparr>))
      (send E [] 0 STARTED (s\<lparr>process := Some p\<rparr>))" if "outbuf s = []" "channel s" for s
    using send_delivers [OF assms(1), of "s\<lparr>process := Some p\<rparr>" "[]" STARTED] fr(2) that by simp
  have eq: "start_command E c srv = and_then (exit_callback E (- 1) ?s)
      (\<lambda>srv. and_then (send E [] 0 STARTED (srv\<lparr>process := Some p\<rparr>))
        (\<lambda>srv. case process srv of None \<Rightarrow> Inl NullDeref
          | Some p \<Rightarrow> Inr (srv\<lparr>process := Some (start_output p)\<rparr>)))"
    by (simp add: start_command_def Let_def p dead)
  have three: "yields (\<lambda>s'. (\<exists>p. process s' = Some p \<and> \<not> running p) \<and>
      sent E s' = sent E s @ frame STARTED [] \<and> disconnects s' = disconnects s)
    (and_then (send E [] 0 STARTED (s\<lparr>process := Some p\<rparr>))
      (\<lambda>srv. case process srv of None \<Rightarrow> Inl NullDeref
        | Some p \<Rightarrow> Inr (srv\<lparr>process := Some (start_output p)\<rparr>)))"
    if "outbuf s = []" "channel s" for s
    by (rule yields_and_then [OF two [OF that]])
      (simp add: delivered_def server_simps start_output_def dead)
  show ?thesis
    unfolding eq
  proof (rule yields_and_then [OF one], elim conjE)
    fix s :: s3tp_server
    assume s: "sent E s = sent E srv @ frame ENDOFFILE (exit_text (- 1))"
      "disconnects s = disconnects srv + 2" "outbuf s = []" "channel s"
    show "yields (\<lambda>s. (\<exists>p. process s = Some p \<and> \<not> running p) \<and>
        sent E s = sent E srv @ frame ENDOFFILE (exit_text (- 1)) @ frame STARTED [] \<and>
        disconnects s = disconnects srv + 2)
      (and_then (send E [] 0 STARTED (s\<lparr>process := Some p\<rparr>))
        (\<lambda>srv. case process srv of None \<Rightarrow> Inl NullDeref
          | Some p \<Rightarrow> Inr (srv\<lparr>process := Some (start_output p)\<rparr>)))"
      by (rule yields_mono [OF three [OF s(3,4)]]) (simp add: s)
  qed
qed

lemma process_exited_delivers:
  assumes "reliable_link E" and "channel srv" and "process srv = Some p" and "process_wf p"
    and "sig \<noteq> SIGTERM" and "framable (exit_text status)"
    and "keeps_closures E"
  shows "yields (\<lambda>s. sent E s = sent E srv @ outbuf srv @ frame ENDOFFILE (exit_text status) \<and>
      disconnects s = disconnects srv + 1 \<and> spawned s = spawned srv \<and> outbuf s = [] \<and>
      process s = None \<and> channel s)
    (process_exited E status sig srv)"
proof -
  obtain q where q: "exit_cb status sig p = Inr (q, True)" and code: "exit_code q = status"
    using exit_cb_yields [OF assms(4), of status sig] assms(5) by (auto simp: yields_iff)
  have "process_exited E status sig srv = exit_callback E status (srv\<lparr>process := Some q\<rparr>)"
    by (simp add: process_exited_def assms(3) q code)
  then show ?thesis
    using exit_callback_delivers [OF assms(1) _ assms(6), of "srv\<lparr>process := Some q\<rparr>"] assms(2,7)
    by (auto simp: server_simps elim!: yields_mono)
qed

subsection \<open>Properties\<close>

text \<open>A link on which every call succeeds, and a connected server on it.\<close>

definition link_env :: s3tp_env where
  "link_env =
     \<lparr>bind_result = (\<lambda>_. 0), accept_result = (\<lambda>_. 0), send_result = (\<lambda>_ _. 0),
      spawn_result = (\<lambda>_ _. 0), active_events = (\<lambda>_. 1), ERROR_BUFFER_FULL = - 4,
      S3TP_ASYNC_EVENT_READ = 1, S3TP_ASYNC_EVENT_WRITE = 2,
      UV_READABLE = 1, UV_WRITABLE = 2, UV_DISCONNECT = 4,
      closure_kept = (\<lambda>_. True)\<rparr>"

definition server1 :: s3tp_server where
  "server1 = (S3TPServer_new 99 [])\<lparr>channel := True, polling := True\<rparr>"

definition child1 :: process where
  "child1 = start_output (fst (Process_new 0 ''cat'' True))"

lemma link_env_simps [simp]:
  "send_result link_env h d = 0" "spawn_result link_env h l = 0" "ERROR_BUFFER_FULL link_env = - 4"
  "reliable_link link_env" "can_spawn link_env" "keeps_closures link_env" "reliable_link (link_env\<lparr>spawn_result := f\<rparr>)"
  by (simp_all add: link_env_def reliable_link_def can_spawn_def keeps_closures_def)

lemma server1_simps [simp]:
  "channel server1" "process server1 = None" "buf server1 = []" "expected server1 = 0"
  "outbuf server1 = []" "polling server1" "trace server1 = []"
  by (simp_all add: server1_def S3TPServer_new_def)

lemma child1_simps [simp]:
  "has_in child1 = Some True" "process_wf child1" "written child1 = []" "stdio_count child1 = 3"
  "running child1" "pipes_open child1"
  by (simp_all add: child1_def Process_new_def Let_def start_output_def process_wf_def)

text \<open>
  A command reaches its process. However the bytes of its frame are split over calls,
  a connected and idle server starts exactly one process, with exactly the command, tells
  the client so, forwards the output of the process from then on, and is ready for the
  next frame.
\<close>

lemma command_in_pieces:
  assumes "reliable_link E" and "can_spawn E" and "channel srv" and "process srv = None"
    and "buf srv = []" and "expected srv = 0" and "outbuf srv = []"
    and "framable c" and "c \<noteq> []" and "concat (map snd cs) = frame t c"
  shows "yields (\<lambda>s. (\<exists>p. process s = Some p \<and> cmd p = c \<and> running p \<and> reading p \<and> pipes_open p \<and>
        process_wf p \<and> has_in p = Some True \<and> written p = []) \<and>
      spawned s = spawned srv @ [c] \<and> sent E s = sent E srv @ frame STARTED [] \<and>
      outbuf s = [] \<and> channel s \<and> buf s = [] \<and> expected s = 0)
    (receive E cs srv)"
  using assms by (rule pieces_received)

lemma command_in_pieces_witness:
  "yields (\<lambda>s. spawned s = [''ls'']) (receive link_env
     [(CHR 0x10, [CHR 0x02, CHR 0x00]), (CHR 0x10, []), (CHR 0x10, [CHR 0x00, CHR 0x00, CHR 0x00] @ ''l''),
      (CHR 0x10, ''s'')] server1)"
proof -
  have "concat (map snd [(CHR 0x10, [CHR 0x02, CHR 0x00]), (CHR 0x10, []),
      (CHR 0x10, [CHR 0x00, CHR 0x00, CHR 0x00] @ ''l''), (CHR 0x10, ''s'')]) = frame NONE ''ls''"
    by (simp add: frame_def le32_def mt_byte_def char_of_def bit_0)
  from command_in_pieces [OF _ _ _ _ _ _ _ _ _ this, of link_env server1] show ?thesis
    by (simp add: framable_def spawned_def yields_iff del: receive.simps) blast
qed

text \<open>
  C17: the server never gives up. In every reachable state it polls its connection, or a
  timer that tries to connect again is running; and a length it expects is the one of the
  incomplete frame in its buffer.
\<close>

theorem server_invariant:
  assumes "server_reachable E port socketpath srv"
  shows "(channel srv \<longrightarrow> polling srv \<and> timer srv = None) \<and>
    (\<not> channel srv \<longrightarrow> \<not> polling srv \<and> timer srv \<noteq> None) \<and>
    (\<forall>p. process srv = Some p \<longrightarrow> process_wf p) \<and>
    (expected srv \<noteq> 0 \<longrightarrow> un_le32 (buf srv) = expected srv \<and>
       length (buf srv) < headersize + unat (expected srv))"
  using server_reachable_wf_lemma [OF assms]
  by (auto simp: server_wf_def link_wf_def process_part_wf_def reading_wf_def)

lemma server_invariant_witness:
  "\<exists>srv. start (link_env\<lparr>bind_result := \<lambda>_. - 1\<rparr>) (S3TPServer_new 99 []) = Inr (False, srv) \<and>
     timer srv \<noteq> None"
proof -
  obtain b srv where s: "start (link_env\<lparr>bind_result := \<lambda>_. - 1\<rparr>) (S3TPServer_new 99 []) = Inr (b, srv)"
    using start_yields [of "link_env\<lparr>bind_result := \<lambda>_. - 1\<rparr>" 99 "[]"] by (auto simp: yields_iff)
  moreover have "\<not> b \<and> \<not> channel srv"
    using s by (auto simp: start_def reconnect_def S3TPServer_new_def Let_def log_call_def)
  ultimately show ?thesis
    using server_invariant [OF server_reachable.started [OF s]] by auto
qed

text \<open>
  One frame per call. When two frames for a running process arrive together, only the
  first is handled; the second stays in the buffer until more data arrive.
\<close>

lemma one_frame_per_call:
  assumes "process srv = Some p" and "has_in p = Some True" and "buf srv = []"
    and "expected srv = 0" and "framable d1" and "d1 \<noteq> []" and "t1 \<noteq> ENDOFFILE"
  shows "onDataReceived E g (frame t1 d1 @ frame t2 d2) srv =
    Inr (srv\<lparr>buf := frame t2 d2, expected := 0,
      process := Some (p\<lparr>written := written p @ [d1]\<rparr>)\<rparr>)"
proof -
  let ?b = "frame t1 d1 @ frame t2 d2" and ?n = "word_of_nat (length d1) :: u32"
  have h: "header g ?b srv = (?n, mt_byte t1)"
    using assms(4) by (simp add: header_def)
  have "?n \<noteq> 0" and "unat ?n = length d1"
    using assms(5,6) by (simp_all add: frame_length_zero unat_frame_length)
  then have "onDataReceived E g ?b srv = handle_frame E (mt_byte t1) (srv\<lparr>buf := ?b, expected := ?n\<rparr>)"
    using onDataReceived_cases [OF _ h, of ?b E] assms(3) by simp
  also have "\<dots> = Inr (srv\<lparr>buf := frame t2 d2, expected := 0,
      process := Some (p\<lparr>written := written p @ [d1]\<rparr>)\<rparr>)"
    using frame_handled [OF assms(1,2,5)] assms(7) by simp
  finally show ?thesis .
qed

lemma one_frame_per_call_witness:
  "onDataReceived link_env (CHR 0x00) (frame STDIN ''a'' @ frame STDIN ''b'')
     (server1\<lparr>process := Some child1\<rparr>) =
   Inr (server1\<lparr>buf := frame STDIN ''b'', expected := 0,
     process := Some (child1\<lparr>written := [''a'']\<rparr>)\<rparr>)"
  by (subst one_frame_per_call [where p = child1]) (simp_all add: framable_def)

text \<open>
  C35: the type of a split frame is lost. When the last piece of a frame for a running
  process arrives after its header, the type byte of the frame is ignored: the
  uninitialised local variable of the last call decides whether the data are input or the
  end of the input.
\<close>

theorem split_frame_loses_type:
  assumes "process srv = Some p" and "has_in p = Some True" and "buf srv = []"
    and "expected srv = 0" and "framable d" and "frame t d = c1 @ c2"
    and "headersize \<le> length c1" and "c2 \<noteq> []"
  shows "receive E [(g1, c1), (g2, c2)] srv =
    Inr (srv\<lparr>buf := [], expected := 0, process := Some
      (if g2 = mt_byte ENDOFFILE then p\<lparr>has_in := Some False\<rparr> else p\<lparr>written := written p @ [d]\<rparr>)\<rparr>)"
proof -
  let ?n = "word_of_nat (length d) :: u32"
  have "length (frame t d) = length c1 + length c2"
    using assms(6) by simp
  then have d: "d \<noteq> []"
    using assms(7,8) by (cases c2) auto
  have srv: "awaiting [] ?n srv = srv"
    using assms(3,4) by (simp add: awaiting_def headersize_def)
  have one: "onDataReceived E g1 c1 srv = Inr (awaiting c1 ?n srv)"
    using receive_piece [of t d "[]" c1 c2 E g1 srv] assms(5,6,8) d by (simp add: srv)
  have "onDataReceived E g2 c2 (awaiting c1 ?n srv) =
      handle_frame E g2 (srv\<lparr>buf := frame t d, expected := ?n\<rparr>)"
    using receive_piece [of t d c1 c2 "[]" E g2 srv] assms(5-8) d by simp
  also have "\<dots> = Inr (srv\<lparr>buf := [], expected := 0, process := Some
      (if g2 = mt_byte ENDOFFILE then p\<lparr>has_in := Some False\<rparr> else p\<lparr>written := written p @ [d]\<rparr>)\<rparr>)"
    using frame_handled [OF assms(1,2,5), of E g2 t "[]"] by simp
  finally show ?thesis
    by (simp add: one)
qed

lemma split_frame_loses_type_witness:
  "receive link_env [(CHR 0x00, take 5 (frame STDIN ''a'')), (mt_byte ENDOFFILE, ''a'')]
     (server1\<lparr>process := Some child1\<rparr>) =
   Inr (server1\<lparr>buf := [], expected := 0, process := Some (child1\<lparr>has_in := Some False\<rparr>)\<rparr>)"
proof -
  have "frame STDIN ''a'' = take 5 (frame STDIN ''a'') @ ''a''"
    by (simp add: frame_def)
  from split_frame_loses_type [OF _ _ _ _ _ this, of "server1\<lparr>process := Some child1\<rparr>" child1]
  show ?thesis
    by (simp add: framable_def headersize_def)
qed

text \<open>
  C36: the end of the input kills the command. The frame without data by which a client
  reports the end of its input is taken for an invalid length: the server drops the
  connection and sends \<open>SIGTERM\<close> to the process, whose input it does not close.
\<close>

theorem end_of_input_kills_command:
  assumes "process srv = Some p" and "buf srv = []" and "expected srv = 0"
  shows "onDataReceived E g (frame ENDOFFILE []) srv =
    Inr (srv\<lparr>buf := frame ENDOFFILE [], expected := 0, polling := False, channel := False,
      process := Some (kill p), timer := Some WaitForKill\<rparr>)"
  using assms by (simp add: zero_length_frame close_with_process)

lemma end_of_input_kills_command_witness:
  "\<exists>s. onDataReceived link_env CHR 0x00 (frame ENDOFFILE []) (server1\<lparr>process := Some child1\<rparr>) = Inr s \<and>
     map_option sigterm (process s) = Some True \<and> \<not> channel s"
  by (subst end_of_input_kills_command [where p = child1]) (simp_all add: kill_def)

text \<open>
  The server waits 100 milliseconds for a killed process, and then frees it, running
  or not. When the process exits later, its exit callback uses freed memory.
\<close>

lemma late_exit_uses_freed_process:
  assumes "process srv = Some p" and "timer srv = None"
  shows "and_then (onDisconnected E srv)
      (\<lambda>srv. and_then (on_timer E srv) (process_exited E status sig)) = Inl UseAfterFree"
proof -
  let ?s = "srv\<lparr>polling := False, channel := False, process := Some (kill p), timer := Some WaitForKill\<rparr>"
  have "yields (\<lambda>s. process s = None) (on_timer E ?s)"
    by (rule on_timer_frees) simp_all
  then show ?thesis
    by (auto simp: onDisconnected_close close_with_process [OF assms(1)] yields_iff
        process_exited_def)
qed

lemma late_exit_uses_freed_process_witness:
  "and_then (onDisconnected link_env (server1\<lparr>process := Some child1\<rparr>))
     (\<lambda>srv. and_then (on_timer link_env srv) (process_exited link_env 0 0)) = Inl UseAfterFree"
  by (rule late_exit_uses_freed_process [where p = child1])
    (simp_all add: server1_def S3TPServer_new_def)

text \<open>
  A command that exits by itself after its connection was lost crashes the server.
  The exit callback asks the channel to disconnect, and there is no channel, if it has not
  faulted before, at its captured pointer.
\<close>

lemma exit_without_channel_crashes:
  assumes "process srv = Some p" and "process_wf p" and "sig \<noteq> SIGTERM"
  shows "and_then (onDisconnected E srv) (process_exited E status sig) =
      Inl (if closure_kept E (trace srv) then NullDeref else UseAfterFree)"
proof -
  have "process_wf (kill p)"
    using assms(2) by simp
  from exit_cb_yields [OF this, of status sig] assms(3)
  obtain q where "exit_cb status sig (kill p) = Inr (q, True)"
    by (auto simp: yields_iff)
  then show ?thesis
    by (simp add: onDisconnected_close close_with_process [OF assms(1)] process_exited_def
        exit_callback_no_channel)
qed

lemma exit_without_channel_crashes_witness:
  "and_then (onDisconnected link_env (server1\<lparr>process := Some child1\<rparr>)) (process_exited link_env 0 0) =
     Inl NullDeref"
  by (subst exit_without_channel_crashes [where p = child1]) (simp_all add: SIGTERM_def link_env_def)

text \<open>
  A lost connection is fatal for a running command. Once the connection is lost, the
  server survives only if the command never exits by itself: if it exits within the 100
  milliseconds that the server waits, the exit callback dereferences the null channel, or has lost its captured pointer before, and
  if it exits later, the callback uses the freed process.
\<close>

lemma lost_connection_is_fatal:
  assumes "process srv = Some p" and "process_wf p" and "timer srv = None" and "sig \<noteq> SIGTERM"
  shows "and_then (onDisconnected E srv) (process_exited E status sig) =
      Inl (if closure_kept E (trace srv) then NullDeref else UseAfterFree) \<and>
    and_then (onDisconnected E srv)
      (\<lambda>srv. and_then (on_timer E srv) (process_exited E status sig)) = Inl UseAfterFree"
  using exit_without_channel_crashes [OF assms(1,2,4)] late_exit_uses_freed_process [OF assms(1,3)]
  by simp

lemma lost_connection_is_fatal_witness:
  "and_then (onDisconnected link_env (server1\<lparr>process := Some child1\<rparr>)) (process_exited link_env 0 0) =
     Inl NullDeref"
  using lost_connection_is_fatal [of "server1\<lparr>process := Some child1\<rparr>" child1 0 link_env 0]
  by (simp add: SIGTERM_def server1_def S3TPServer_new_def link_env_def)

text \<open>
  C33: output that the library refuses crashes the server. When \<open>send\<close> fails while a
  command runs, the connection is closed, and the events to poll for are then asked of the
  channel that is gone.
\<close>

theorem refused_output_crashes:
  assumes "channel srv" and "process srv = Some p" and "0 < nread"
    and "\<And>h d. send_result E h d < 0 \<and> send_result E h d \<noteq> ERROR_BUFFER_FULL E"
  shows "read_callback E is_out nread base srv = Inl NullDeref"
  using assms by (simp add: read_callback_def failed_send_crashes)

lemma refused_output_crashes_witness:
  "read_callback (link_env\<lparr>send_result := \<lambda>_ _. - 1\<rparr>) True 2 ''ok'' (server1\<lparr>process := Some child1\<rparr>) =
     Inl NullDeref"
  by (rule refused_output_crashes [where p = child1]) simp_all

text \<open>
  A command that cannot be started is reported in the wrong order. The client hears of
  the exit before it hears of the start, the library is asked twice to disconnect, and the
  server keeps the process that never ran.
\<close>

lemma failed_start_reported_backwards:
  assumes "reliable_link E" and "channel srv" and "outbuf srv = []" and "process srv = None"
    and "spawn_result E (trace srv) c \<noteq> 0"
  shows "yields (\<lambda>s. (\<exists>p. process s = Some p \<and> \<not> running p) \<and>
      sent E s = sent E srv @ frame ENDOFFILE (exit_text (- 1)) @ frame STARTED [] \<and>
      disconnects s = disconnects srv + 2)
    (start_command E c srv)"
  using assms by (rule spawn_failed_session)

lemma failed_start_reported_backwards_witness:
  "yields (\<lambda>s. disconnects s = 2) (start_command (link_env\<lparr>spawn_result := \<lambda>_ _. - 2\<rparr>) ''ls'' server1)"
  by (rule yields_mono [OF failed_start_reported_backwards]) (simp_all add: disconnects_def)

text \<open>
  The completion of a command. When the process exits by itself on a working link,
  the client gets what is left in the output buffer and then the exit frame, and the
  library is asked once to disconnect.
\<close>

lemma command_completes:
  assumes "reliable_link E" and "channel srv" and "process srv = Some p" and "process_wf p"
    and "sig \<noteq> SIGTERM" and "framable (exit_text status)"
    and "keeps_closures E"
  shows "yields (\<lambda>s. sent E s = sent E srv @ outbuf srv @ frame ENDOFFILE (exit_text status) \<and>
      disconnects s = disconnects srv + 1 \<and> spawned s = spawned srv \<and> outbuf s = [] \<and>
      process s = None \<and> channel s)
    (process_exited E status sig srv)"
  using assms by (rule process_exited_delivers)

lemma command_completes_witness:
  "yields (\<lambda>s. sent link_env s = frame ENDOFFILE (''[exit] 0'' @ [CHR 0x0A]))
    (process_exited link_env 0 0 (server1\<lparr>process := Some child1\<rparr>))"
proof -
  have msg: "exit_text 0 = ''[exit] 0'' @ [CHR 0x0A]"
    by (simp add: exit_text_def show_int_def show_nat.simps digit_def char_of_def bit_0)
  show ?thesis
    by (rule yields_mono [OF command_completes [where p = child1]])
      (simp_all add: msg framable_def SIGTERM_def sent_def)
qed

end
