(* ===== verification/S3tpFlow.thy ===== *)
theory S3tpFlow
  imports S3tpSession
begin

text \<open>
  The S3TP server over time: input for a running process that arrives in pieces, output
  under back-pressure, where the library takes some of the data only later, and the
  reconnection after the link was lost.
\<close>

subsection \<open>Input in pieces\<close>

text \<open>
  The pieces of one frame, whatever runs: the frame is handled once it is complete, under
  its own type or under the uninitialised value of the last call.
\<close>

lemma receive_frame_pieces:
  assumes "framable msg" and "msg \<noteq> []"
    and "frame t msg = pre @ concat (map snd cs)" and "concat (map snd cs) \<noteq> []"
  defines "n \<equiv> word_of_nat (length msg)"
  shows "\<exists>ty cs'. ty \<in> insert (mt_byte t) (fst ` set cs) \<and> (\<forall>c\<in>set cs'. snd c = []) \<and>
    receive E cs (awaiting pre n srv) =
      and_then (handle_frame E ty (srv\<lparr>buf := frame t msg, expected := n\<rparr>)) (receive E cs')"
  using assms(3,4)
proof (induction cs arbitrary: pre)
  case (Cons c cs)
  obtain g data where c: "c = (g, data)" by force
  have fr: "frame t msg = pre @ data @ concat (map snd cs)"
    and ne: "data @ concat (map snd cs) \<noteq> []"
    using Cons.prems by (simp_all add: c)
  note piece = receive_piece [OF fr assms(1,2) disjI2 [OF ne], folded n_def, of E g srv]
  show ?case
  proof (cases "concat (map snd cs) = []")
    case True
    then have "\<forall>c\<in>set cs. snd c = []" by auto
    with piece True show ?thesis
      by (intro exI [of _ "if length pre < headersize then mt_byte t else g"] exI [of _ cs])
        (auto simp: c)
  next
    case False
    then have "receive E (c # cs) (awaiting pre n srv) = receive E cs (awaiting (pre @ data) n srv)"
      using piece by (simp only: c receive.simps if_not_P [OF False] and_then_Inr if_False)
    moreover have "frame t msg = (pre @ data) @ concat (map snd cs)"
      using fr by simp
    ultimately show ?thesis
      using Cons.IH [of "pre @ data"] False by auto
  qed
qed simp

lemma receive_append:
  "receive E (cs @ ds) srv = and_then (receive E cs srv) (receive E ds)"
proof (induction cs arbitrary: srv)
  case (Cons c cs)
  have "receive E (cs @ ds) = (\<lambda>srv. and_then (receive E cs srv) (receive E ds))"
    by (rule ext) (rule Cons.IH)
  then show ?case
    by (cases c) (simp add: and_then_assoc)
qed simp

lemma input_frame_received:
  assumes "process srv = Some p" and "has_in p = Some True" and "buf srv = []" and "expected srv = 0"
    and "framable d" and "d \<noteq> []" and "t \<noteq> ENDOFFILE"
    and "\<forall>c\<in>set cs. fst c \<noteq> mt_byte ENDOFFILE" and "concat (map snd cs) = frame t d"
  shows "receive E cs srv = Inr (srv\<lparr>process := Some (p\<lparr>written := written p @ [d]\<rparr>)\<rparr>)"
proof -
  let ?n = "word_of_nat (length d) :: u32"
  have srv: "awaiting [] ?n srv = srv"
    using assms(3,4) by (simp add: awaiting_def headersize_def)
  have ne: "concat (map snd cs) \<noteq> []"
    using assms(9) by (simp add: frame_def)
  obtain ty cs' where ty: "ty \<in> insert (mt_byte t) (fst ` set cs)" and cs': "\<forall>c\<in>set cs'. snd c = []"
    and eq: "receive E cs srv =
      and_then (handle_frame E ty (srv\<lparr>buf := frame t d, expected := ?n\<rparr>)) (receive E cs')"
    using receive_frame_pieces [OF assms(5,6) _ ne, of t "[]" E srv] assms(9) by (auto simp: srv)
  have "ty \<noteq> mt_byte ENDOFFILE"
    using ty assms(7,8) by auto
  then show ?thesis
    using frame_handled [OF assms(1,2,5), of E ty t "[]"] assms(3,4) cs'
    by (simp add: eq receive_nothing)
qed

text \<open>Any number of frames, one after the other.\<close>

lemma input_in_order:
  assumes "process srv = Some p" and "has_in p = Some True" and "buf srv = []" and "expected srv = 0"
    and "\<forall>(t, d, cs)\<in>set fs. framable d \<and> d \<noteq> [] \<and> t \<noteq> ENDOFFILE \<and>
      concat (map snd cs) = frame t d \<and> (\<forall>c\<in>set cs. fst c \<noteq> mt_byte ENDOFFILE)"
  shows "receive E (concat (map (\<lambda>(t, d, cs). cs) fs)) srv =
    Inr (srv\<lparr>process := Some (p\<lparr>written := written p @ map (\<lambda>(t, d, cs). d) fs\<rparr>)\<rparr>)"
  using assms
proof (induction fs arbitrary: srv p)
  case Nil
  then show ?case by (cases srv) simp
next
  case (Cons f fs)
  obtain t d cs where f: "f = (t, d, cs)" by (cases f)
  let ?p = "p\<lparr>written := written p @ [d]\<rparr>"
  have "receive E cs srv = Inr (srv\<lparr>process := Some ?p\<rparr>)"
    using Cons.prems by (intro input_frame_received) (auto simp: f)
  moreover have "receive E (concat (map (\<lambda>(t, d, cs). cs) fs)) (srv\<lparr>process := Some ?p\<rparr>) =
      Inr (srv\<lparr>process := Some (p\<lparr>written := (written p @ [d]) @ map (\<lambda>(t, d, cs). d) fs\<rparr>)\<rparr>)"
    using Cons.prems by (subst Cons.IH [of _ ?p]) auto
  ultimately show ?case
    by (simp add: f receive_append)
qed

subsection \<open>Output under back-pressure\<close>

text \<open>A library that may be full, but never fails.\<close>

definition lossless :: "s3tp_env \<Rightarrow> bool" where
  "lossless E \<longleftrightarrow> (\<forall>h d. 0 \<le> send_result E h d \<or> send_result E h d = ERROR_BUFFER_FULL E)"

text \<open>
  A dependable installation: in addition, the exit callback of a remote command can still
  read its captured pointer after it has destroyed itself.
\<close>

definition dependable :: "s3tp_env \<Rightarrow> bool" where
  "dependable E \<longleftrightarrow> lossless E \<and> keeps_closures E"

lemma dependableD: "dependable E \<Longrightarrow> lossless E" "dependable E \<Longrightarrow> keeps_closures E"
  by (simp_all add: dependable_def)

definition out_frames :: "(bool \<times> string) list \<Rightarrow> string" where
  "out_frames os = concat (map (\<lambda>(b, d). frame (out_type b) d) os)"

lemma out_frames_simps [simp]:
  "out_frames [] = []" "out_frames ((b, d) # os) = frame (out_type b) d @ out_frames os"
  by (simp_all add: out_frames_def)

text \<open>
  The output that the process has written waits in its pipes, as a list of the chunks in
  which libuv will read it. libuv reads the next chunk only while reading is started.
\<close>

datatype flow_event = OutputReady | Drained | Congested

definition flow_step :: "s3tp_env \<Rightarrow> flow_event \<Rightarrow> (bool \<times> string) list \<times> s3tp_server \<Rightarrow>
    ((bool \<times> string) list \<times> s3tp_server) outcome" where
  "flow_step E ev = (\<lambda>(pipe, srv).
     case ev of
       OutputReady \<Rightarrow>
         (case (pipe, process srv) of
            ((is_out, d) # pipe', Some p) \<Rightarrow>
              if reading p
              then and_then (read_callback E is_out (int (length d)) d srv) (\<lambda>srv. Inr (pipe', srv))
              else Inr (pipe, srv)
          | _ \<Rightarrow> Inr (pipe, srv))
     | Drained \<Rightarrow> and_then (onBufferEmpty E srv) (\<lambda>srv. Inr (pipe, srv))
     | Congested \<Rightarrow> and_then (onBufferFull srv) (\<lambda>srv. Inr (pipe, srv)))"

fun flow :: "s3tp_env \<Rightarrow> flow_event list \<Rightarrow> (bool \<times> string) list \<times> s3tp_server \<Rightarrow>
    ((bool \<times> string) list \<times> s3tp_server) outcome" where
  "flow E [] c = Inr c"
| "flow E (ev # evs) c = and_then (flow_step E ev c) (flow E evs)"

text \<open>
  What one attempt to send does: all of the buffer is taken, or nothing of it and the
  output of the process is stopped.
\<close>

lemma send_buf_lossless:
  assumes "lossless E" and "channel srv"
  shows "yields (\<lambda>(b, s). sent E s @ outbuf s = sent E srv @ outbuf srv \<and> channel s \<and>
      (outbuf s = [] \<and> process s = process srv \<and>
         disconnects s = disconnects srv + (if outbuf srv \<noteq> [] \<and> process srv = None then 1 else 0) \<or>
       outbuf s = outbuf srv \<and> outbuf srv \<noteq> [] \<and> process s = map_option stop_output (process srv) \<and>
         disconnects s = disconnects srv))
    (send_buf E srv)"
proof (cases "outbuf srv = []")
  case False
  let ?r = "send_result E (trace srv) (outbuf srv)"
  have "?r = ERROR_BUFFER_FULL E \<or> \<not> ?r < 0"
    using assms(1) by (auto simp: lossless_def not_less)
  with False assms(2) show ?thesis
    by (auto simp: send_buf_def Let_def disconnect_def server_simps accepted_def
        stop_process_output_def)
qed (use assms(2) in \<open>simp add: send_buf_def\<close>)

lemma send_lossless:
  assumes "lossless E" and "channel srv" and "framable msg" and "ty \<noteq> NONE"
  shows "yields (\<lambda>s. sent E s @ outbuf s = sent E srv @ outbuf srv @ frame ty msg \<and> channel s \<and>
      (outbuf s = [] \<and> process s = process srv \<and>
         disconnects s = disconnects srv + (if process srv = None then 1 else 0) \<or>
       outbuf s = outbuf srv @ frame ty msg \<and> process s = map_option stop_output (process srv) \<and>
         disconnects s = disconnects srv))
    (send E msg (word_of_nat (length msg)) ty srv)"
proof -
  let ?s = "srv\<lparr>outbuf := outbuf srv @ frame ty msg\<rparr>"
  have eq: "send E msg (word_of_nat (length msg)) ty srv =
      and_then (send_buf E ?s) (\<lambda>(_, srv). update_events E srv)"
    using assms(2-4) by (simp add: send_def Let_def frame_def unat_frame_length)
  have "frame ty msg \<noteq> []"
    by (simp add: frame_def)
  then show ?thesis
    using assms(2) unfolding eq
    by (intro yields_and_then [OF send_buf_lossless [OF assms(1)]])
      (auto simp: update_events_def server_simps accepted_def)
qed

text \<open>
  The invariant of the flow: \<open>k\<close> bounds the chunks and \<open>b\<close> what was held at the start. What
  was sent, what is held and what is still in the pipes is the output, in order; and while
  more than \<open>b\<close> is held, the output of the process is stopped.
\<close>

definition flows :: "s3tp_env \<Rightarrow> string \<Rightarrow> nat \<Rightarrow> nat \<Rightarrow> nat \<Rightarrow> (bool \<times> string) list \<times> s3tp_server \<Rightarrow> bool" where
  "flows E out n b k = (\<lambda>(pipe, srv).
     sent E srv @ outbuf srv @ out_frames pipe = out \<and> disconnects srv = n \<and> channel srv \<and>
     (\<exists>p. process srv = Some p \<and>
        length (outbuf srv) \<le> b + (if reading p then 0 else headersize + k)) \<and>
     (\<forall>(_, d)\<in>set pipe. framable d \<and> d \<noteq> [] \<and> length d \<le> k))"

lemma flow_output:
  assumes "lossless E" and "flows E out n b k ((is_out, d) # pipe, srv)"
    and "process srv = Some p" and "reading p"
  shows "yields (\<lambda>s. flows E out n b k (pipe, s)) (read_callback E is_out (int (length d)) d srv)"
proof -
  have d: "framable d" "d \<noteq> []" "length d \<le> k" and up: "channel srv"
    and held: "length (outbuf srv) \<le> b"
    using assms(2-4) by (auto simp: flows_def)
  have ty: "(if is_out then STDOUT else STDERR) = out_type is_out" "out_type is_out \<noteq> NONE"
    by (simp_all add: out_type_def)
  have "read_callback E is_out (int (length d)) d srv =
      send E d (word_of_nat (length d)) (out_type is_out) srv"
    using d(2) ty(1) by (simp add: read_callback_def)
  moreover have "length (frame (out_type is_out) d) = headersize + length d"
    by simp
  ultimately show ?thesis
    using assms(2,3) d held
    by (auto simp: flows_def stop_output_def intro!: yields_mono [OF send_lossless [OF assms(1) up d(1) ty(2)]])
qed

lemma flow_step_flows:
  assumes "lossless E" and "flows E out n b k c"
  shows "yields (flows E out n b k) (flow_step E ev c)"
proof -
  obtain pipe srv where c: "c = (pipe, srv)" by force
  obtain p where p: "process srv = Some p" and up: "channel srv"
    using assms(2) by (auto simp: c flows_def)
  show ?thesis
  proof (cases ev)
    case OutputReady
    show ?thesis
    proof (cases "pipe \<noteq> [] \<and> reading p")
      case True
      then obtain is_out d pipe' where pipe: "pipe = (is_out, d) # pipe'"
        by (cases pipe) auto
      have "yields (\<lambda>s. flows E out n b k (pipe', s)) (read_callback E is_out (int (length d)) d srv)"
        using assms(2) True p by (intro flow_output [OF assms(1)]) (simp_all add: c pipe)
      with True p show ?thesis
        by (auto simp: flow_step_def c OutputReady pipe elim: yields_and_then)
    next
      case False
      with assms(2) p show ?thesis
        by (cases pipe) (auto simp: flow_step_def c OutputReady)
    qed
  next
    case Drained
    let ?s = "srv\<lparr>process := Some (start_output p)\<rparr>"
    have "yields (\<lambda>(b', s). flows E out n b k (pipe, s)) (send_buf E ?s)"
      using assms(2) p up
      by (intro yields_mono [OF send_buf_lossless [OF assms(1)]])
        (auto simp: c flows_def server_simps start_output_def stop_output_def split: if_splits)
    then have "yields (\<lambda>s. flows E out n b k (pipe, s)) (onBufferEmpty E srv)"
      by (auto simp: onBufferEmpty_def p elim!: yields_and_then)
    then show ?thesis
      by (auto simp: flow_step_def c Drained elim: yields_and_then)
  next
    case Congested
    with assms(2) p show ?thesis
      by (auto simp: flow_step_def c flows_def onBufferFull_def stop_process_output_def
          stop_output_def server_simps split: if_splits)
  qed
qed

lemma flow_flows:
  assumes "lossless E" and "flows E out n b k c"
  shows "yields (flows E out n b k) (flow E evs c)"
  using assms(2)
  by (induction evs arbitrary: c)
    (auto intro: yields_and_then [OF flow_step_flows [OF assms(1)]])

subsection \<open>The exit under back-pressure\<close>

text \<open>
  After the exit of the process the library is asked to disconnect as soon as, and only
  when, it has taken everything.
\<close>

definition winding_up :: "s3tp_env \<Rightarrow> string \<Rightarrow> nat \<Rightarrow> s3tp_server \<Rightarrow> bool" where
  "winding_up E out n srv \<longleftrightarrow>
     sent E srv @ outbuf srv = out \<and> process srv = None \<and> channel srv \<and>
     disconnects srv = n + (if outbuf srv = [] then 1 else 0)"

lemma exit_callback_winds_up:
  assumes "lossless E" and "channel srv" and "process srv \<noteq> None" and "framable (exit_text code)"
    and "keeps_closures E"
  shows "yields (winding_up E (sent E srv @ outbuf srv @ frame ENDOFFILE (exit_text code)) (disconnects srv))
    (exit_callback E code srv)"
proof -
  have last: "yields (winding_up E out n)
      (if outbuf s \<noteq> [] then and_then (send_buf E s) (\<lambda>(_, srv). Inr srv) else disconnect s)"
    if "sent E s @ outbuf s = out" "process s = None" "channel s" "disconnects s = n" for s out n
  proof (cases "outbuf s = []")
    case False
    have "yields (\<lambda>(b, s). winding_up E out n s) (send_buf E s)"
      using that False
      by (intro yields_mono [OF send_buf_lossless [OF assms(1) that(3)]]) (auto simp: winding_up_def)
    with False show ?thesis
      by (auto elim!: yields_and_then)
  qed (use that in \<open>auto simp: disconnect_def winding_up_def server_simps accepted_def\<close>)
  show ?thesis
    unfolding exit_callback_def
  proof (rule yields_and_then [OF send_lossless [OF assms(1,2,4)]])
    show "ENDOFFILE \<noteq> NONE" by simp
    fix s
    assume "sent E s @ outbuf s = sent E srv @ outbuf srv @ frame ENDOFFILE (exit_text code) \<and> channel s \<and>
      (outbuf s = [] \<and> process s = process srv \<and>
         disconnects s = disconnects srv + (if process srv = None then 1 else 0) \<or>
       outbuf s = outbuf srv @ frame ENDOFFILE (exit_text code) \<and>
         process s = map_option stop_output (process srv) \<and> disconnects s = disconnects srv)"
    with assms(3) last [of "s\<lparr>process := None\<rparr>"]
    show "yields (winding_up E (sent E srv @ outbuf srv @ frame ENDOFFILE (exit_text code)) (disconnects srv))
      (let freed = process s \<noteq> None; srv = s\<lparr>process := None\<rparr>
       in if freed \<and> \<not> closure_kept E (trace srv) then Inl UseAfterFree
          else if outbuf srv \<noteq> [] then and_then (send_buf E srv) (\<lambda>(_, srv). Inr srv) else disconnect srv)"
      using keeps_closuresD [OF assms(5)]
      unfolding Let_def by (auto simp: server_simps simp del: not_None_eq)
  qed
qed

lemma winding_up_step:
  assumes "lossless E" and "winding_up E out n srv"
  shows "yields (winding_up E out n) (onBufferEmpty E srv)"
    and "yields (winding_up E out n) (onBufferFull srv)"
proof -
  have up: "channel srv" and none: "process srv = None"
    using assms(2) by (simp_all add: winding_up_def)
  have same: "srv\<lparr>process := None\<rparr> = srv"
    using none by simp
  have "yields (\<lambda>(b, s). winding_up E out n s) (send_buf E srv)"
    using assms(2)
    by (intro yields_mono [OF send_buf_lossless [OF assms(1) up]]) (auto simp: winding_up_def)
  then show "yields (winding_up E out n) (onBufferEmpty E srv)"
    by (auto simp: onBufferEmpty_def none same elim!: yields_and_then)
  show "yields (winding_up E out n) (onBufferFull srv)"
    using assms(2) by (simp add: onBufferFull_def stop_process_output_def none same)
qed

text \<open>What the library reports after the exit: it has drained its buffer, or it is full.\<close>

fun wind_up :: "s3tp_env \<Rightarrow> bool list \<Rightarrow> s3tp_server \<Rightarrow> s3tp_server outcome" where
  "wind_up E [] srv = Inr srv"
| "wind_up E (drained # bs) srv =
     and_then (if drained then onBufferEmpty E srv else onBufferFull srv) (wind_up E bs)"

lemma wind_up_keeps:
  assumes "lossless E" and "winding_up E out n srv"
  shows "yields (winding_up E out n) (wind_up E bs srv)"
  using assms(2)
proof (induction bs arbitrary: srv)
  case (Cons b bs)
  then show ?case
    by (cases b) (auto intro: yields_and_then [OF winding_up_step(1) [OF assms(1)]]
        yields_and_then [OF winding_up_step(2) [OF assms(1)]])
qed simp

subsection \<open>Reconnection\<close>

text \<open>From the \<open>n\<close>-th call on, binding and accepting succeed.\<close>

definition link_up_from :: "nat \<Rightarrow> s3tp_env \<Rightarrow> bool" where
  "link_up_from n E \<longleftrightarrow> (\<forall>h. n \<le> length h \<longrightarrow> bind_result E h = 0 \<and> 0 \<le> accept_result E h)"

fun timeouts :: "s3tp_env \<Rightarrow> nat \<Rightarrow> s3tp_server \<Rightarrow> s3tp_server outcome" where
  "timeouts E 0 srv = Inr srv"
| "timeouts E (Suc k) srv = and_then (on_timer E srv) (timeouts E k)"

definition waiting :: "s3tp_server \<Rightarrow> bool" where
  "waiting srv \<longleftrightarrow> \<not> channel srv \<and> \<not> polling srv \<and> timer srv \<noteq> None"

definition connected :: "s3tp_server \<Rightarrow> bool" where
  "connected srv \<longleftrightarrow> channel srv \<and> polling srv \<and> timer srv = None"

text \<open>Once the old process is out of the way, every timeout tries to connect.\<close>

definition trying :: "s3tp_server \<Rightarrow> bool" where
  "trying srv \<longleftrightarrow> waiting srv \<and> (process srv = None \<or> timer srv = Some WaitForKill)"

lemma on_timer_clears:
  assumes "waiting srv" and "\<not> trying srv"
  shows "yields trying (on_timer E srv)"
proof -
  obtain p where "process srv = Some p" "timer srv = Some RetryConnect" "\<not> channel srv" "\<not> polling srv"
    using assms by (cases "timer srv") (auto simp: waiting_def trying_def intro: timer_cb.exhaust)
  then show ?thesis
    by (simp add: on_timer_def reconnect_def trying_def waiting_def)
qed

lemma on_timer_tries:
  assumes "trying srv"
  shows "yields (\<lambda>s. connected s \<or> trying s \<and> length (trace srv) < length (trace s)) (on_timer E srv)"
    and "link_up_from (length (trace srv)) E \<Longrightarrow> yields connected (on_timer E srv)"
proof -
  let ?s = "free_process (srv\<lparr>timer := None\<rparr>)"
  have eq: "on_timer E srv = and_then (reconnect E ?s) (\<lambda>(_, srv). Inr srv)"
    using assms
    by (cases srv; cases "the (timer srv)") (auto simp: on_timer_def trying_def waiting_def free_process_None)
  have down: "\<not> channel ?s" "\<not> polling ?s"
    using assms by (auto simp: trying_def waiting_def)
  with eq show "yields (\<lambda>s. connected s \<or> trying s \<and> length (trace srv) < length (trace s)) (on_timer E srv)"
    by (simp add: reconnect_def Let_def update_events_def connected_def trying_def waiting_def
        log_call_def)
  show "yields connected (on_timer E srv)" if "link_up_from (length (trace srv)) E"
  proof -
    have "bind_result E (trace srv) = 0" and "0 \<le> accept_result E (trace srv @ [Bind 0])"
      using that by (simp_all add: link_up_from_def)
    with eq down show ?thesis
      by (simp add: reconnect_def Let_def update_events_def connected_def log_call_def)
  qed
qed

lemma timeouts_connected:
  assumes "connected srv"
  shows "timeouts E k srv = Inr srv"
proof -
  have "on_timer E srv = Inr srv"
    using assms by (simp add: on_timer_def connected_def)
  then show ?thesis
    by (induction k) simp_all
qed

lemma link_up_from_mono: "link_up_from n E \<Longrightarrow> n \<le> m \<Longrightarrow> link_up_from m E"
  by (auto simp: link_up_from_def)

lemma timeouts_connect:
  assumes "trying srv" and "link_up_from n E" and "n < length (trace srv) + k" and "0 < k"
  shows "yields connected (timeouts E k srv)"
  using assms(1,3,4)
proof (induction k arbitrary: srv)
  case 0
  then show ?case by simp
next
  case (Suc k)
  show ?case
  proof (cases "n \<le> length (trace srv)")
    case True
    have "yields connected (on_timer E srv)"
      by (rule on_timer_tries(2) [OF Suc.prems(1) link_up_from_mono [OF assms(2) True]])
    then show ?thesis
      by (auto simp: timeouts_connected elim: yields_and_then)
  next
    case False
    have "yields connected (timeouts E k s)"
      if "connected s \<or> trying s \<and> length (trace srv) < length (trace s)" for s
      using that Suc.IH [of s] Suc.prems(2) False by (auto simp: timeouts_connected)
    then show ?thesis
      by (auto intro: yields_and_then [OF on_timer_tries(1) [OF Suc.prems(1)]])
  qed
qed

subsection \<open>Properties\<close>

text \<open>
  Input reaches the command. The frames for a running process, each split in any way
  but none joined to the next, are written to the process in order and unchanged, whatever
  their types, as long as neither the frames nor the uninitialised local variable say that
  the input ends.
\<close>

lemma input_reaches_command:
  assumes "process srv = Some p" and "has_in p = Some True" and "buf srv = []" and "expected srv = 0"
    and "\<forall>(t, d, cs)\<in>set fs. framable d \<and> d \<noteq> [] \<and> t \<noteq> ENDOFFILE \<and>
      concat (map snd cs) = frame t d \<and> (\<forall>c\<in>set cs. fst c \<noteq> mt_byte ENDOFFILE)"
  shows "receive E (concat (map (\<lambda>(t, d, cs). cs) fs)) srv =
    Inr (srv\<lparr>process := Some (p\<lparr>written := written p @ map (\<lambda>(t, d, cs). d) fs\<rparr>)\<rparr>)"
  using assms by (rule input_in_order)

lemma input_reaches_command_witness:
  "receive link_env [(CHR 0x00, frame STDIN ''a''), (CHR 0x00, take 3 (frame STDIN ''b'')),
       (CHR 0x00, drop 3 (frame STDIN ''b''))] (server1\<lparr>process := Some child1\<rparr>) =
     Inr (server1\<lparr>process := Some (child1\<lparr>written := [''a'', ''b'']\<rparr>)\<rparr>)"
proof -
  have "CHR 0x00 \<noteq> mt_byte ENDOFFILE"
    by code_simp
  then show ?thesis
    using input_reaches_command [of "server1\<lparr>process := Some child1\<rparr>" child1
      "[(STDIN, ''a'', [(CHR 0x00, frame STDIN ''a'')]),
        (STDIN, ''b'', [(CHR 0x00, take 3 (frame STDIN ''b'')), (CHR 0x00, drop 3 (frame STDIN ''b''))])]"
      link_env]
    by (simp add: framable_def del: receive.simps)
qed

text \<open>
  C18: back-pressure loses nothing. While a command runs and the library never fails but
  may be full at any time: what the library has taken, what the server holds and what waits
  in the pipes of the process is always the output of the process, framed and in order; the
  server never holds more than one chunk beyond what it held at first, and never asks to
  disconnect.
\<close>

theorem back_pressure_loses_nothing:
  assumes "lossless E" and "channel srv" and "process srv = Some p"
    and "\<forall>(_, d)\<in>set pipe. framable d \<and> d \<noteq> [] \<and> length d \<le> k"
  shows "yields (\<lambda>(pipe', s).
      sent E s @ outbuf s @ out_frames pipe' = sent E srv @ outbuf srv @ out_frames pipe \<and>
      length (outbuf s) \<le> length (outbuf srv) + headersize + k \<and>
      channel s \<and> disconnects s = disconnects srv)
    (flow E evs (pipe, srv))"
proof -
  have "flows E (sent E srv @ outbuf srv @ out_frames pipe) (disconnects srv) (length (outbuf srv)) k (pipe, srv)"
    using assms(2-4) by (auto simp: flows_def)
  from flow_flows [OF assms(1) this] show ?thesis
    by (rule yields_mono) (auto simp: flows_def split: if_splits)
qed

lemma back_pressure_loses_nothing_witness:
  "yields (\<lambda>(pipe, s). sent (link_env\<lparr>send_result := \<lambda>_ _. - 4\<rparr>) s @ outbuf s @ out_frames pipe =
      frame STDOUT ''ab'' @ frame STDERR ''c'')
    (flow (link_env\<lparr>send_result := \<lambda>_ _. - 4\<rparr>) [OutputReady, OutputReady, Congested, Drained]
      ([(True, ''ab''), (False, ''c'')], server1\<lparr>process := Some child1\<rparr>))"
  by (rule yields_mono [OF back_pressure_loses_nothing [where p = child1 and k = 2]])
    (auto simp: lossless_def framable_def sent_def out_type_def)

text \<open>
  The exit is the last word. When the process exits by itself on a link that may be
  full, the exit frame follows everything held before, and the library is asked to
  disconnect exactly once, as soon as it has taken everything and not before.
\<close>

lemma exit_is_the_last_word:
  assumes "lossless E" and "channel srv" and "process srv = Some p" and "process_wf p"
    and "sig \<noteq> SIGTERM" and "framable (exit_text status)" and "keeps_closures E"
  shows "yields (\<lambda>s. sent E s @ outbuf s = sent E srv @ outbuf srv @ frame ENDOFFILE (exit_text status) \<and>
      disconnects s = disconnects srv + (if outbuf s = [] then 1 else 0) \<and> process s = None \<and> channel s)
    (and_then (process_exited E status sig srv) (wind_up E bs))"
proof -
  obtain q where q: "exit_cb status sig p = Inr (q, True)" and code: "exit_code q = status"
    using exit_cb_yields [OF assms(4), of status sig] assms(5) by (auto simp: yields_iff)
  have eq: "process_exited E status sig srv = exit_callback E status (srv\<lparr>process := Some q\<rparr>)"
    by (simp add: process_exited_def assms(3) q code)
  have "yields (winding_up E (sent E srv @ outbuf srv @ frame ENDOFFILE (exit_text status)) (disconnects srv))
      (process_exited E status sig srv)"
    using exit_callback_winds_up [OF assms(1) _ _ assms(6,7), of "srv\<lparr>process := Some q\<rparr>"] assms(2)
    by (simp add: eq server_simps)
  then show ?thesis
    by (rule yields_and_then)
      (auto intro: yields_mono [OF wind_up_keeps [OF assms(1)]] simp: winding_up_def)
qed

lemma exit_is_the_last_word_witness:
  "yields (\<lambda>s. process s = None) (and_then (process_exited link_env 0 0 (server1\<lparr>process := Some child1\<rparr>))
     (wind_up link_env [False, True]))"
proof -
  have "framable (exit_text 0)"
    by (simp add: framable_def exit_text_def show_int_def show_nat.simps)
  moreover have "lossless link_env"
    by (simp add: lossless_def)
  ultimately show ?thesis
    by (intro yields_mono [OF exit_is_the_last_word [where p = child1]]) (simp_all add: SIGTERM_def)
qed

text \<open>
  C20: the link comes back. Once binding and accepting succeed from the \<open>n\<close>-th call to the
  library on, a disconnected server is connected again after at most \<open>n + 2\<close> timeouts,
  whatever it was waiting for, and stays so.
\<close>

theorem link_comes_back:
  assumes "server_reachable E pt sp srv" and "link_up_from n E" and "n + 2 \<le> k"
  shows "yields (\<lambda>s. channel s \<and> polling s \<and> timer s = None) (timeouts E k srv)"
proof -
  have "connected srv \<or> waiting srv"
    using server_reachable_wf_lemma [OF assms(1)]
    by (auto simp: server_wf_def link_wf_def connected_def waiting_def)
  moreover have "yields connected (timeouts E k srv)" if "waiting srv" "\<not> trying srv"
  proof -
    obtain k' where k: "k = Suc k'"
      using assms(3) by (cases k) auto
    have "yields connected (timeouts E k' s)" if "trying s" for s
      using assms(3) that by (intro timeouts_connect [OF _ assms(2)]) (simp_all add: k)
    then show ?thesis
      by (auto simp: k intro: yields_and_then [OF on_timer_clears [OF that]])
  qed
  moreover have "yields connected (timeouts E k srv)" if "trying srv"
    using assms(3) by (intro timeouts_connect [OF that assms(2)]) simp_all
  ultimately have "yields connected (timeouts E k srv)"
    by (auto simp: timeouts_connected)
  then show ?thesis
    by (rule yields_mono) (simp add: connected_def)
qed

lemma link_comes_back_witness:
  "\<exists>srv. start (link_env\<lparr>bind_result := \<lambda>h. if h = [] then - 1 else 0\<rparr>) (S3TPServer_new 99 []) = Inr (False, srv) \<and>
     yields channel (timeouts (link_env\<lparr>bind_result := \<lambda>h. if h = [] then - 1 else 0\<rparr>) 3 srv)"
proof -
  let ?E = "link_env\<lparr>bind_result := \<lambda>h. if h = [] then - 1 else 0\<rparr>"
  obtain b srv where s: "start ?E (S3TPServer_new 99 []) = Inr (b, srv)"
    using start_yields [of ?E 99 "[]"] by (auto simp: yields_iff)
  moreover have "\<not> b"
    using s by (auto simp: start_def reconnect_def S3TPServer_new_def Let_def log_call_def)
  moreover have "link_up_from 1 ?E"
    by (auto simp: link_up_from_def link_env_def)
  then have "yields (\<lambda>s. channel s \<and> polling s \<and> timer s = None) (timeouts ?E 3 srv)"
    by (rule link_comes_back [OF server_reachable.started [OF s]]) simp
  ultimately show ?thesis
    by (auto elim!: yields_mono)
qed

end
