(* ===== verification/S3tpDelivery.thy ===== *)
theory S3tpDelivery
  imports S3tpFlow
begin

text \<open>
  The output of a command is delivered: the measure of what is left over, and how every
  round of the event loop reduces it once the S3TP library takes data again.
\<close>

text \<open>The library takes all data from the \<open>n\<close>-th call on.\<close>

definition accepts_from :: "nat \<Rightarrow> s3tp_env \<Rightarrow> bool" where
  "accepts_from n E \<longleftrightarrow>
     (\<forall>h d. n \<le> length h \<longrightarrow> 0 \<le> send_result E h d \<and> send_result E h d \<noteq> ERROR_BUFFER_FULL E)"

definition accepting :: "nat \<Rightarrow> s3tp_server \<Rightarrow> s3tp_server \<Rightarrow> bool" where
  "accepting n srv s \<longleftrightarrow> process srv \<noteq> None \<and> length (trace srv) < length (trace s) \<and>
     (outbuf s = [] \<and> process s = process srv \<or>
      outbuf s \<noteq> [] \<and> length (trace srv) < n \<and> process s = map_option stop_output (process srv))"

lemma send_buf_accepting:
  assumes "lossless E" and "accepts_from n E" and "channel srv" and "process srv \<noteq> None"
    and "outbuf srv \<noteq> []"
  shows "yields (\<lambda>(b, s). channel s \<and> accepting n srv s) (send_buf E srv)"
proof -
  let ?r = "send_result E (trace srv) (outbuf srv)"
  have "?r = ERROR_BUFFER_FULL E \<or> \<not> ?r < 0"
    using assms(1) by (auto simp: lossless_def not_less)
  moreover have "length (trace srv) < n" if "?r = ERROR_BUFFER_FULL E"
    using assms(2) that by (auto simp: accepts_from_def not_le [symmetric])
  ultimately show ?thesis
    using assms(3-5)
    by (auto simp: send_buf_def Let_def server_simps accepting_def stop_process_output_def)
qed

lemma send_accepting:
  assumes "lossless E" and "accepts_from n E" and "channel srv" and "process srv \<noteq> None"
    and "framable msg" and "ty \<noteq> NONE"
  shows "yields (\<lambda>s. channel s \<and> accepting n srv s) (send E msg (word_of_nat (length msg)) ty srv)"
proof -
  let ?s = "srv\<lparr>outbuf := outbuf srv @ frame ty msg\<rparr>"
  have eq: "send E msg (word_of_nat (length msg)) ty srv =
      and_then (send_buf E ?s) (\<lambda>(_, srv). update_events E srv)"
    using assms(3,5,6) by (simp add: send_def Let_def frame_def unat_frame_length)
  have "yields (\<lambda>(b, s). channel s \<and> accepting n ?s s) (send_buf E ?s)"
    using assms(3,4) by (intro send_buf_accepting [OF assms(1,2)]) (simp_all add: frame_def)
  then show ?thesis
    unfolding eq
    by (rule yields_and_then) (auto simp: update_events_def server_simps accepting_def)
qed

text \<open>
  A round starts the output again, tries to send what is held, and reads one chunk. It makes
  a call to the library as long as anything is left.
\<close>

fun left_over :: "nat \<Rightarrow> (bool \<times> string) list \<times> s3tp_server \<Rightarrow> nat" where
  "left_over n (pipe, srv) =
     (if pipe = [] \<and> outbuf srv = [] then 0
      else (n - length (trace srv)) + length pipe + (if outbuf srv = [] then 0 else 1))"

definition delivers :: "(bool \<times> string) list \<times> s3tp_server \<Rightarrow> bool" where
  "delivers c \<longleftrightarrow> channel (snd c) \<and> (\<exists>p. process (snd c) = Some p \<and> pipes_open p) \<and>
     (\<forall>(_, d)\<in>set (fst c). framable d \<and> d \<noteq> [])"

lemma read_delivers:
  assumes "lossless E" and "accepts_from n E" and "delivers (pipe, srv)" and "outbuf srv = []"
    and "process srv = Some p" and "reading p"
  shows "yields (\<lambda>c. delivers c \<and> (if pipe = [] then c = (pipe, srv) else left_over n c < left_over n (pipe, srv)))
    (flow_step E OutputReady (pipe, srv))"
proof (cases pipe)
  case (Cons x pipe')
  obtain is_out d where x: "x = (is_out, d)" by force
  have d: "framable d" "d \<noteq> []" and up: "channel srv"
    using assms(3) by (auto simp: delivers_def Cons x)
  have ty: "(if is_out then STDOUT else STDERR) = out_type is_out" "out_type is_out \<noteq> NONE"
    by (simp_all add: out_type_def)
  have "read_callback E is_out (int (length d)) d srv =
      send E d (word_of_nat (length d)) (out_type is_out) srv"
    using d(2) ty(1) by (simp add: read_callback_def)
  moreover have "yields (\<lambda>s. channel s \<and> accepting n srv s) (send E d (word_of_nat (length d)) (out_type is_out) srv)"
    using assms(5) by (intro send_accepting [OF assms(1,2) up _ d(1) ty(2)]) simp
  ultimately show ?thesis
    using assms(3-6)
    by (auto simp: flow_step_def Cons x delivers_def accepting_def stop_output_def elim!: yields_and_then)
qed (use assms in \<open>auto simp: flow_step_def\<close>)

lemma flow_Nil: "flow E [] = Inr"
  by (rule ext) simp

lemma flow_pair: "flow E [e, f] c = and_then (flow_step E e c) (flow_step E f)"
proof -
  have "flow E [f] = flow_step E f"
    by (rule ext) (simp add: and_then_def flow_Nil split: sum.split)
  then show ?thesis
    by simp
qed

lemma flow_append: "flow E (evs @ evs') c = and_then (flow E evs c) (flow E evs')"
proof (induction evs arbitrary: c)
  case (Cons ev evs)
  have "flow E (evs @ evs') = (\<lambda>c. and_then (flow E evs c) (flow E evs'))"
    by (rule ext) (rule Cons.IH)
  then show ?case
    by (simp add: and_then_assoc)
qed simp

lemma round_delivers:
  assumes "lossless E" and "accepts_from n E" and "delivers c"
  shows "yields (\<lambda>c'. delivers c' \<and> left_over n c' \<le> left_over n c - 1)
    (flow E [Drained, OutputReady] c)"
proof -
  obtain pipe srv where c: "c = (pipe, srv)" by force
  obtain p where p: "process srv = Some p" and "pipes_open p" and up: "channel srv"
    using assms(3) by (auto simp: c delivers_def)
  let ?s = "srv\<lparr>process := Some (start_output p)\<rparr>"
  have del: "delivers (pipe, ?s)" and read: "reading (start_output p)"
    using assms(3) \<open>pipes_open p\<close> by (simp_all add: c delivers_def start_output_def)
  show ?thesis
  proof (cases "outbuf srv = []")
    case True
    then have "flow E [Drained, OutputReady] c = flow_step E OutputReady (pipe, ?s)"
      by (simp only: flow_pair) (simp add: c flow_step_def [of E Drained] onBufferEmpty_def p send_buf_def)
    then show ?thesis
      using read_delivers [OF assms(1,2) del, of "start_output p"] True read
      by (auto simp: c elim!: yields_mono split: if_splits)
  next
    case False
    have "yields (\<lambda>(b, s). channel s \<and> accepting n ?s s) (send_buf E ?s)"
      using False up by (intro send_buf_accepting [OF assms(1,2)]) simp_all
    then have "yields (\<lambda>s. channel s \<and> accepting n ?s s) (onBufferEmpty E srv)"
      by (auto simp: onBufferEmpty_def p elim!: yields_and_then)
    then obtain s where s: "onBufferEmpty E srv = Inr s" "channel s" "accepting n ?s s"
      by (auto simp: yields_iff)
    have eq: "flow E [Drained, OutputReady] c = flow_step E OutputReady (pipe, s)"
      by (simp only: flow_pair) (simp add: c flow_step_def [of E Drained] s(1))
    have del': "delivers (pipe, s)"
      using s(2,3) del by (auto simp: delivers_def accepting_def stop_output_def)
    show ?thesis
    proof (cases "outbuf s = []")
      case True
      then have less: "left_over n (pipe, s) < left_over n c" and q: "process s = Some (start_output p)"
        using s(3) \<open>outbuf srv \<noteq> []\<close> by (auto simp: c accepting_def)
      from read_delivers [OF assms(1,2) del' True q read] show ?thesis
        unfolding eq by (rule yields_mono) (use less \<open>outbuf srv \<noteq> []\<close> in \<open>auto simp: c split: if_splits\<close>)
    next
      case False
      with s(3) have "process s = Some (stop_output (start_output p))" "length (trace srv) < n"
        "length (trace srv) < length (trace s)"
        by (auto simp: accepting_def)
      then have "flow_step E OutputReady (pipe, s) = Inr (pipe, s)" "left_over n (pipe, s) < left_over n c"
        using \<open>outbuf srv \<noteq> []\<close> by (auto simp: flow_step_def stop_output_def c split: list.split)
      with del' show ?thesis
        unfolding eq by (simp only: yields_Inr) simp
    qed
  qed
qed

abbreviation rounds :: "nat \<Rightarrow> flow_event list" where
  "rounds k \<equiv> concat (replicate k [Drained, OutputReady])"

lemma rounds_deliver:
  assumes "lossless E" and "accepts_from n E" and "delivers c"
  shows "yields (\<lambda>c'. delivers c' \<and> left_over n c' \<le> left_over n c - k) (flow E (rounds k) c)"
  using assms(3)
proof (induction k arbitrary: c)
  case (Suc k)
  have "flow E (rounds (Suc k)) c = and_then (flow E [Drained, OutputReady] c) (flow E (rounds k))"
    by (simp only: replicate.simps concat.simps flow_append)
  moreover have "yields (\<lambda>c'. delivers c' \<and> left_over n c' \<le> left_over n c - Suc k)
      (and_then (flow E [Drained, OutputReady] c) (flow E (rounds k)))"
    by (rule yields_and_then [OF round_delivers [OF assms(1,2) Suc.prems]])
      (auto elim!: yields_mono [OF Suc.IH])
  ultimately show ?case
    by simp
qed simp

subsection \<open>Property\<close>

text \<open>
  C19: all output is delivered. When a command has its pipes open and the library takes all data from its \<open>n\<close>-th call on,
  then after \<open>n\<close> rounds of the loop, and one more for every chunk that waits and for what is
  held, everything that was held or waited in the pipes has been sent, in order, however
  the library refused data before; a round is a notification that the library's buffer is
  empty, and one that the process has output.
\<close>

theorem output_is_delivered:
  assumes "lossless E" and "accepts_from n E" and "channel srv" and "process srv = Some p"
    and "pipes_open p" and "\<forall>(_, d)\<in>set pipe. framable d \<and> d \<noteq> []" and "n + length pipe + 1 \<le> k"
  shows "yields (\<lambda>(pipe', s). pipe' = [] \<and> outbuf s = [] \<and>
      sent E s = sent E srv @ outbuf srv @ out_frames pipe \<and> channel s \<and> process s \<noteq> None)
    (flow E (concat (replicate k [Drained, OutputReady])) (pipe, srv))"
proof -
  let ?k = "Max (insert 0 ((length \<circ> snd) ` set pipe))"
  have "length d \<le> ?k" if "(b, d) \<in> set pipe" for b d
    by (rule Max_ge) (use that in \<open>force+\<close>)
  with assms(3,4,6) have "flows E (sent E srv @ outbuf srv @ out_frames pipe) (disconnects srv)
      (length (outbuf srv)) ?k (pipe, srv)"
    by (auto simp: flows_def)
  from flow_flows [OF assms(1) this, of "rounds k"]
  have "yields (flows E (sent E srv @ outbuf srv @ out_frames pipe) (disconnects srv)
      (length (outbuf srv)) ?k) (flow E (rounds k) (pipe, srv))" .
  moreover have "delivers (pipe, srv)"
    using assms(3-6) by (simp add: delivers_def)
  from rounds_deliver [OF assms(1,2) this, of k]
  have "yields (\<lambda>c'. delivers c' \<and> left_over n c' \<le> left_over n (pipe, srv) - k) (flow E (rounds k) (pipe, srv))" .
  moreover have "left_over n (pipe, srv) \<le> k"
    using assms(7) by (auto split: if_splits)
  ultimately show ?thesis
    by (auto simp: yields_iff flows_def delivers_def split: if_splits)
qed

lemma output_is_delivered_witness:
  "yields (\<lambda>(pipe, s). sent (link_env\<lparr>send_result := \<lambda>h _. if h = [] then - 4 else 0\<rparr>) s =
      frame STDOUT ''ab'' @ frame STDERR ''c'')
    (flow (link_env\<lparr>send_result := \<lambda>h _. if h = [] then - 4 else 0\<rparr>)
      (concat (replicate 4 [Drained, OutputReady]))
      ([(True, ''ab''), (False, ''c'')], server1\<lparr>process := Some child1\<rparr>))"
  by (rule yields_mono [OF output_is_delivered [where p = child1 and n = 1]])
    (auto simp: lossless_def accepts_from_def framable_def sent_def out_type_def link_env_def)

end
