(* ===== verification/Remoteexec.thy ===== *)
theory Remoteexec
  imports S3tpProto
begin

text \<open>
  The client of the S3TP server, \<^verbatim>\<open>test/s3tp/remoteexec.cpp\<close>: how it writes frames and
  how it takes the server's frames out of the stream of bytes that arrives.
\<close>

subsection \<open>Writing\<close>

text \<open>
  \<open>writeData\<close>: the buffer handed to the channel and the result, where \<open>send\<close> stands for
  the library. \<open>join_args\<close> is the loop that builds the command from \<open>argv\<close>, and
  \<open>stdin_message\<close> what \<open>main\<close> writes for one \<open>read\<close> of its standard input.
\<close>

definition writeData :: "(string \<Rightarrow> int) \<Rightarrow> string \<Rightarrow> message_type \<Rightarrow> string \<times> bool" where
  "writeData send line type =
     (let len = (word_of_nat (length line) :: u32);
          sendbuf = le32 len @ [mt_byte type];
          sendbuf = sendbuf @ take (unat len) line;
          r = send sendbuf
      in (sendbuf, \<not> r \<le> 0))"

fun join_args :: "string list \<Rightarrow> string" where
  "join_args [] = []"
| "join_args [a] = a"
| "join_args (a # as) = a @ '' '' @ join_args as"

definition command_message :: "string list \<Rightarrow> message_type \<times> string" where
  "command_message args = (NONE, join_args args @ [CHR 0x0A])"

definition stdin_message :: "string \<Rightarrow> message_type \<times> string" where
  "stdin_message command = (if command = [] then (ENDOFFILE, []) else (STDIN, command))"

lemma writeData_frame:
  "framable line \<Longrightarrow> fst (writeData send line type) = frame type line"
  by (simp add: writeData_def frame_def unat_frame_length Let_def)

subsection \<open>Reading\<close>

text \<open>
  What the user of the client gets to hear. The fields \<open>rx_buf\<close>, \<open>rx_expected\<close> and
  \<open>rx_type\<close> are the class's \<open>buf\<close>, \<open>expected\<close> and \<open>type\<close>; \<open>client_running\<close> is the
  global \<open>running\<close>.
\<close>

datatype client_note =
    CommandReceived
  | Completed string
  | Output string

record client =
  rx_buf :: string
  rx_expected :: u32
  rx_type :: char
  client_running :: bool
  heard :: "client_note list"

datatype client_error = InvalidLength

definition RemoteexecCallback_new :: "char \<Rightarrow> client" where
  "RemoteexecCallback_new type0 =
     \<lparr>rx_buf = [], rx_expected = 0, rx_type = type0, client_running = True, heard = []\<rparr>"

definition note_of :: "char \<Rightarrow> string \<Rightarrow> client_note" where
  "note_of ty indata =
     (if ty = mt_byte STARTED then CommandReceived
      else if ty = mt_byte ENDOFFILE then Completed indata
      else Output indata)"

definition handleBuffer :: "client \<Rightarrow> client_error + (bool \<times> client)" where
  "handleBuffer c =
     (if length (rx_buf c) < headersize then Inr (False, c)
      else
        let fresh = (rx_expected c = 0);
            c = (if fresh then c\<lparr>rx_expected := un_le32 (rx_buf c), rx_type := rx_buf c ! 4\<rparr> else c)
        in if fresh \<and> rx_expected c = 0 \<and> rx_type c = mt_byte NONE then Inl InvalidLength
           else if length (rx_buf c) < unat (rx_expected c) + headersize then Inr (False, c)
           else
             let indata = take (unat (rx_expected c)) (drop headersize (rx_buf c));
                 c = c\<lparr>heard := heard c @ [note_of (rx_type c) indata],
                       client_running := client_running c \<and> rx_type c \<noteq> mt_byte ENDOFFILE\<rparr>;
                 c = c\<lparr>rx_buf := drop (headersize + unat (rx_expected c)) (rx_buf c)\<rparr>;
                 c = c\<lparr>rx_expected := 0\<rparr>
             in Inr (True, c))"

lemma handleBuffer_shrinks:
  "handleBuffer c = Inr (True, c') \<Longrightarrow> length (rx_buf c') < length (rx_buf c)"
  by (auto simp: handleBuffer_def Let_def headersize_def split: if_splits)

text \<open>The loop \<open>while (handleBuffer()) {}\<close>; it ends because every round takes a header.\<close>

function handle_all :: "client \<Rightarrow> client_error + client" where
  "handle_all c =
     (case handleBuffer c of
        Inl e \<Rightarrow> Inl e
      | Inr (again, c') \<Rightarrow> if again then handle_all c' else Inr c')"
  by pat_completeness auto
termination
  by (relation "measure (\<lambda>c. length (rx_buf c))") (auto dest: handleBuffer_shrinks)

declare handle_all.simps [simp del]

definition client_received :: "string \<Rightarrow> client \<Rightarrow> client_error + client" where
  "client_received data c = handle_all (c\<lparr>rx_buf := rx_buf c @ data\<rparr>)"

fun client_receives :: "string list \<Rightarrow> client \<Rightarrow> client_error + client" where
  "client_receives [] c = Inr c"
| "client_receives (d # ds) c =
     (case client_received d c of Inl e \<Rightarrow> Inl e | Inr c' \<Rightarrow> client_receives ds c')"

subsection \<open>The interface of a stream reader\<close>

text \<open>
  A reader takes messages out of a stream that arrives in arbitrary pieces. \<open>holds s b ms\<close>:
  the reader has delivered \<open>ms\<close> and holds the bytes \<open>b\<close>. It promises to deliver a message
  that is complete, and to wait for one that is not.
\<close>

locale stream_reader =
  fixes enc :: "'m \<Rightarrow> string"
    and ok :: "'m \<Rightarrow> bool"
    and holds :: "'s \<Rightarrow> string \<Rightarrow> 'm list \<Rightarrow> bool"
    and push :: "string \<Rightarrow> 's \<Rightarrow> 's"
    and step :: "'s \<Rightarrow> 'e + (bool \<times> 's)"
    and run :: "'s \<Rightarrow> 'e + 's"
  assumes holds_push: "holds s b ms \<Longrightarrow> holds (push d s) (b @ d) ms"
    and deliver: "ok m \<Longrightarrow> holds s (enc m @ r) ms \<Longrightarrow>
      \<exists>s'. step s = Inr (True, s') \<and> holds s' r (ms @ [m])"
    and wait: "ok m \<Longrightarrow> holds s b ms \<Longrightarrow> b @ d = enc m \<Longrightarrow> d \<noteq> [] \<Longrightarrow>
      \<exists>s'. step s = Inr (False, s') \<and> holds s' b ms"
    and wait_empty: "holds s [] ms \<Longrightarrow> \<exists>s'. step s = Inr (False, s') \<and> holds s' [] ms"
    and enc_nonempty: "ok m \<Longrightarrow> enc m \<noteq> []"
    and run_step: "run s = (case step s of Inl e \<Rightarrow> Inl e
      | Inr (again, s') \<Rightarrow> if again then run s' else Inr s')"
begin

text \<open>
  A prefix of a stream of messages is some whole messages and then a proper part of the
  next one, or nothing.
\<close>

lemma split_stream:
  assumes "\<forall>m\<in>set ms. ok m" and "b @ d = concat (map enc ms)"
  shows "\<exists>ks ls c. ms = ks @ ls \<and> b = concat (map enc ks) @ c \<and> c @ d = concat (map enc ls) \<and>
    (c = [] \<or> (\<exists>m e. m \<in> set ls \<and> c @ e = enc m \<and> e \<noteq> []))"
  using assms
proof (induction ms arbitrary: b)
  case Nil
  then show ?case by simp
next
  case (Cons m ms)
  show ?case
  proof (cases "length (enc m) \<le> length b")
    case True
    obtain us where "b @ us = enc m \<or> b = enc m @ us"
      using Cons.prems(2) by (auto simp: append_eq_append_conv2)
    moreover have "us = []" if "b @ us = enc m"
      using arg_cong [OF that, of length] True by (cases us) simp_all
    ultimately obtain b' where b: "b = enc m @ b'"
      by auto
    have ok: "\<forall>m\<in>set ms. ok m" and b': "b' @ d = concat (map enc ms)"
      using Cons.prems b by simp_all
    from Cons.IH [OF this] obtain ks ls c where "ms = ks @ ls" "b' = concat (map enc ks) @ c"
      "c @ d = concat (map enc ls)" "c = [] \<or> (\<exists>m e. m \<in> set ls \<and> c @ e = enc m \<and> e \<noteq> [])"
      by blast
    with b show ?thesis
      by (intro exI [of _ "m # ks"] exI [of _ ls] exI [of _ c]) simp
  next
    case False
    then obtain e where e: "b @ e = enc m"
      using Cons.prems(2) by (auto simp: append_eq_append_conv2)
    moreover have "e \<noteq> []"
      using e False by auto
    ultimately have "b @ e = enc m" "e \<noteq> []" .
    with Cons.prems(2) show ?thesis
      by (intro exI [of _ "[]"] exI [of _ "m # ms"] exI [of _ b]) auto
  qed
qed

lemma run_delivers:
  assumes "\<forall>m\<in>set ks. ok m" and "holds s (concat (map enc ks) @ c) ms"
    and "c = [] \<or> (\<exists>m e. ok m \<and> c @ e = enc m \<and> e \<noteq> [])"
  shows "\<exists>s'. run s = Inr s' \<and> holds s' c (ms @ ks)"
  using assms(1,2)
proof (induction ks arbitrary: s ms)
  case Nil
  then have "\<exists>s'. step s = Inr (False, s') \<and> holds s' c ms"
    using assms(3) wait wait_empty by auto
  then show ?case
    by (subst run_step) auto
next
  case (Cons k ks)
  then obtain s1 where s1: "step s = Inr (True, s1)" "holds s1 (concat (map enc ks) @ c) (ms @ [k])"
    using deliver [of k s "concat (map enc ks) @ c" ms] by auto
  then obtain s' where "run s1 = Inr s'" "holds s' c ((ms @ [k]) @ ks)"
    using Cons.IH [of s1 "ms @ [k]"] Cons.prems(1) by auto
  with s1(1) show ?case
    by (subst run_step) auto
qed

text \<open>One piece of a stream, when the bytes held and the piece are a prefix of what follows.\<close>

lemma piece_delivers:
  assumes "\<forall>m\<in>set ls. ok m" and "holds s c ms" and "(c @ d) @ ds = concat (map enc ls)"
  shows "\<exists>s' ks ls' c'. run (push d s) = Inr s' \<and> ls = ks @ ls' \<and> holds s' c' (ms @ ks) \<and>
    c' @ ds = concat (map enc ls') \<and> (c' = [] \<or> (\<exists>m e. m \<in> set ls' \<and> c' @ e = enc m \<and> e \<noteq> []))"
proof -
  obtain ks ls' c' where split: "ls = ks @ ls'" "c @ d = concat (map enc ks) @ c'"
    "c' @ ds = concat (map enc ls')" "c' = [] \<or> (\<exists>m e. m \<in> set ls' \<and> c' @ e = enc m \<and> e \<noteq> [])"
    using split_stream [OF assms(1,3)] by (elim exE conjE) (rule that)
  then have "c' = [] \<or> (\<exists>m e. ok m \<and> c' @ e = enc m \<and> e \<noteq> [])"
    using assms(1) by auto
  moreover have "holds (push d s) (concat (map enc ks) @ c') ms"
    using holds_push [OF assms(2), of d] split(2) by simp
  ultimately obtain s' where "run (push d s) = Inr s'" "holds s' c' (ms @ ks)"
    using run_delivers [of ks "push d s" c' ms] split(1) assms(1) by auto
  with split show ?thesis
    by blast
qed

lemma stream_end:
  assumes "\<forall>m\<in>set ls. ok m" and "c = concat (map enc ls)"
    and "c = [] \<or> (\<exists>m e. m \<in> set ls \<and> c @ e = enc m \<and> e \<noteq> [])"
  shows "c = [] \<and> ls = []"
proof -
  have "length (enc m) \<le> length (concat (map enc ks))" if "m \<in> set ks" for m and ks :: "'m list"
    using that by (induction ks) auto
  then have "length (enc m) \<le> length c" if "m \<in> set ls" for m
    using that assms(2) by simp
  then have "\<not> (m \<in> set ls \<and> c @ e = enc m \<and> e \<noteq> [])" for m e
    by (metis append.right_neutral append_eq_append_conv length_append le_add1 le_antisym)
  then have "c = []"
    using assms(3) by blast
  then show ?thesis
    using assms(1,2) enc_nonempty by (cases ls) auto
qed

end

subsection \<open>The client is a stream reader\<close>

text \<open>
  The messages a client can be sent: those that fit in a frame, but for the empty message
  of no type, which it takes for an invalid length.
\<close>

type_synonym message = "message_type \<times> string"

definition message_ok :: "message \<Rightarrow> bool" where
  "message_ok m \<longleftrightarrow> framable (snd m) \<and> (snd m \<noteq> [] \<or> fst m \<noteq> NONE)"

definition enc_message :: "message \<Rightarrow> string" where
  "enc_message m = frame (fst m) (snd m)"

definition note_of_message :: "message \<Rightarrow> client_note" where
  "note_of_message m = note_of (mt_byte (fst m)) (snd m)"

definition client_holds :: "client_note list \<Rightarrow> client \<Rightarrow> string \<Rightarrow> message list \<Rightarrow> bool" where
  "client_holds ns c b ms \<longleftrightarrow>
     rx_buf c = b \<and> heard c = ns @ map note_of_message ms \<and>
     (rx_expected c \<noteq> 0 \<longrightarrow> headersize \<le> length b \<and> rx_expected c = un_le32 b \<and> rx_type c = b ! 4)"

definition client_push :: "string \<Rightarrow> client \<Rightarrow> client" where
  "client_push d c = c\<lparr>rx_buf := rx_buf c @ d\<rparr>"

lemma holds_header:
  assumes "client_holds ns c b ms" and "headersize \<le> length b"
    and "un_le32 b \<noteq> 0 \<or> b ! 4 \<noteq> mt_byte NONE"
  shows "handleBuffer c =
    (if length b < headersize + unat (un_le32 b)
     then Inr (False, c\<lparr>rx_expected := un_le32 b, rx_type := b ! 4\<rparr>)
     else Inr (True, c\<lparr>heard := heard c @ [note_of (b ! 4) (take (unat (un_le32 b)) (drop headersize b))],
       rx_type := b ! 4, client_running := client_running c \<and> b ! 4 \<noteq> mt_byte ENDOFFILE,
       rx_buf := drop (headersize + unat (un_le32 b)) b, rx_expected := 0\<rparr>))"
proof (cases "rx_expected c = 0")
  case True
  with assms show ?thesis
    by (auto simp: handleBuffer_def client_holds_def Let_def)
next
  case False
  with assms have "c = c\<lparr>rx_expected := un_le32 b, rx_type := b ! 4\<rparr>" "rx_buf c = b"
    by (simp_all add: client_holds_def)
  with assms False show ?thesis
    by (auto simp: handleBuffer_def client_holds_def Let_def)
qed

lemma message_header:
  assumes "message_ok (t, d)"
  shows "(word_of_nat (length d) :: u32) \<noteq> 0 \<or> mt_byte t \<noteq> mt_byte NONE"
    and "unat (word_of_nat (length d) :: u32) = length d"
  using assms by (auto simp: message_ok_def frame_length_zero unat_frame_length)

lemma client_delivers:
  assumes "message_ok m" and "client_holds ns c (enc_message m @ r) ms"
  shows "\<exists>c'. handleBuffer c = Inr (True, c') \<and> client_holds ns c' r (ms @ [m])"
proof -
  obtain t d where m: "m = (t, d)" by force
  note hd = message_header [OF assms(1) [unfolded m]]
  from assms(2) have h: "client_holds ns c (frame t d @ r) ms"
    by (simp add: m enc_message_def)
  show ?thesis
    using holds_header [OF h] hd h
    by (simp add: client_holds_def m note_of_message_def)
qed

lemma client_waits:
  assumes "message_ok m" and "client_holds ns c b ms" and "b @ d = enc_message m" and "d \<noteq> []"
  shows "\<exists>c'. handleBuffer c = Inr (False, c') \<and> client_holds ns c' b ms"
proof (cases "length b < headersize")
  case True
  with assms(2) show ?thesis
    by (simp add: handleBuffer_def client_holds_def)
next
  case False
  obtain t e where m: "m = (t, e)" by force
  have fr: "frame t e = b @ d"
    using assms(3) by (simp add: m enc_message_def)
  note hd = message_header [OF assms(1) [unfolded m]]
  have b: "un_le32 b = word_of_nat (length e)" "b ! 4 = mt_byte t"
    using frame_prefix_header [OF fr] False by simp_all
  have "length b < headersize + length e"
    using arg_cong [OF fr, of length] assms(4) by (cases d) simp_all
  then show ?thesis
    using holds_header [OF assms(2)] False hd b assms(2)
    by (simp add: client_holds_def)
qed

interpretation client_reader: stream_reader enc_message message_ok "client_holds ns" client_push
  handleBuffer handle_all for ns
proof
  show "client_holds ns (client_push d s) (b @ d) ms" if "client_holds ns s b ms" for s b ms d
    using that
    by (auto simp: client_holds_def client_push_def un_le32_append nth_append headersize_def)
  show "\<exists>s'. handleBuffer s = Inr (True, s') \<and> client_holds ns s' r (ms @ [m])"
    if "message_ok m" "client_holds ns s (enc_message m @ r) ms" for m s r ms
    using that by (rule client_delivers)
  show "\<exists>s'. handleBuffer s = Inr (False, s') \<and> client_holds ns s' b ms"
    if "message_ok m" "client_holds ns s b ms" "b @ d = enc_message m" "d \<noteq> []" for m s b ms d
    using that by (rule client_waits)
  show "\<exists>s'. handleBuffer s = Inr (False, s') \<and> client_holds ns s' [] ms"
    if "client_holds ns s [] ms" for s ms
    using that by (simp add: handleBuffer_def client_holds_def headersize_def)
  show "enc_message m \<noteq> []" if "message_ok m" for m
    by (simp add: enc_message_def frame_def)
  show "handle_all s = (case handleBuffer s of Inl e \<Rightarrow> Inl e
      | Inr (again, s') \<Rightarrow> if again then handle_all s' else Inr s')" for s
    by (rule handle_all.simps)
qed

text \<open>A whole stream of messages, in any pieces.\<close>

lemma client_stream:
  assumes "\<forall>m\<in>set ls. message_ok m" and "client_holds ns c b ms"
    and "b @ concat ds = concat (map enc_message ls)"
    and "b = [] \<or> (\<exists>m e. m \<in> set ls \<and> b @ e = enc_message m \<and> e \<noteq> [])"
  shows "\<exists>c'. client_receives ds c = Inr c' \<and> client_holds ns c' [] (ms @ ls)"
  using assms
proof (induction ds arbitrary: c b ms ls)
  case Nil
  then have "b = [] \<and> ls = []"
    by (intro client_reader.stream_end) simp_all
  with Nil.prems(2) show ?case by simp
next
  case (Cons d ds)
  then have "(b @ d) @ concat ds = concat (map enc_message ls)" by simp
  from client_reader.piece_delivers [OF Cons.prems(1,2) this]
  obtain c' ks ls' b' where c': "handle_all (client_push d c) = Inr c'" "ls = ks @ ls'"
    "client_holds ns c' b' (ms @ ks)" "b' @ concat ds = concat (map enc_message ls')"
    "b' = [] \<or> (\<exists>m e. m \<in> set ls' \<and> b' @ e = enc_message m \<and> e \<noteq> [])"
    by blast
  moreover have "\<forall>m\<in>set ls'. message_ok m"
    using Cons.prems(1) c'(2) by simp
  ultimately obtain c'' where "client_receives ds c' = Inr c''"
    "client_holds ns c'' [] ((ms @ ks) @ ls')"
    using Cons.IH by blast
  with c' show ?case
    by (simp add: client_received_def client_push_def)
qed

lemma client_hears:
  assumes "\<forall>m\<in>set ms. framable (snd m) \<and> (snd m \<noteq> [] \<or> fst m \<noteq> NONE)"
    and "concat ds = concat (map (\<lambda>(t, d). frame t d) ms)"
  shows "\<exists>c. client_receives ds (RemoteexecCallback_new type0) = Inr c \<and>
    heard c = map (\<lambda>(t, d). note_of (mt_byte t) d) ms \<and> rx_buf c = [] \<and> rx_expected c = 0"
proof -
  have enc: "concat (map (\<lambda>(t, d). frame t d) ms) = concat (map enc_message ms)"
    by (rule arg_cong [where f = concat], rule map_cong) (auto simp: enc_message_def)
  have "client_holds [] (RemoteexecCallback_new type0) [] []"
    by (simp add: client_holds_def RemoteexecCallback_new_def)
  from client_stream [OF _ this, of ms ds] assms obtain c where
    "client_receives ds (RemoteexecCallback_new type0) = Inr c" "client_holds [] c [] ms"
    by (auto simp: enc message_ok_def)
  then show ?thesis
    by (auto simp: client_holds_def note_of_message_def headersize_def)
qed

subsection \<open>Properties\<close>

text \<open>
  The client hears every message. Whatever messages the server sends, and however
  their bytes are split or joined on the way, the client reports exactly these messages,
  in their order, and has nothing left over.
\<close>

lemma client_hears_every_message:
  assumes "\<forall>m\<in>set ms. framable (snd m) \<and> (snd m \<noteq> [] \<or> fst m \<noteq> NONE)"
    and "concat ds = concat (map (\<lambda>(t, d). frame t d) ms)"
  shows "\<exists>c. client_receives ds (RemoteexecCallback_new type0) = Inr c \<and>
    heard c = map (\<lambda>(t, d). note_of (mt_byte t) d) ms \<and> rx_buf c = [] \<and> rx_expected c = 0"
  using assms by (rule client_hears)

lemma client_hears_every_message_witness:
  "\<exists>c. client_receives [frame STARTED [] @ take 2 (frame STDOUT ''hi''), drop 2 (frame STDOUT ''hi'')]
     (RemoteexecCallback_new (CHR 0x00)) = Inr c \<and> heard c = [CommandReceived, Output ''hi'']"
  using client_hears_every_message [of "[(STARTED, []), (STDOUT, ''hi'')]"
      "[frame STARTED [] @ take 2 (frame STDOUT ''hi''), drop 2 (frame STDOUT ''hi'')]" "CHR 0x00"]
  by (auto simp: framable_def note_of_def simp del: client_receives.simps)

end
