(* ===== verification/S3tpServing.thy ===== *)
theory S3tpServing
  imports S3tpDelivery Remoteexec
begin

text \<open>
  The S3TP server as the peer of a client: the phases of a session, and for every operation
  of the server what it does to the stream it sends and to the stream it receives. The
  library may be full at any time but never fails.
\<close>

subsection \<open>Phases\<close>

text \<open>
  Before the command, while it runs and has been given some input, and after its exit.
\<close>

datatype phase = Fresh | Busy "string list" | Over

fun in_phase :: "string \<Rightarrow> phase \<Rightarrow> process option \<Rightarrow> bool" where
  "in_phase c Fresh P = (P = None)"
| "in_phase c (Busy ins) P =
     (\<exists>p. P = Some p \<and> cmd p = c \<and> written p = ins \<and> has_in p = Some True \<and> process_wf p \<and> running p)"
| "in_phase c Over P = (P = None)"

definition began :: "phase \<Rightarrow> bool" where
  "began ph \<longleftrightarrow> ph \<noteq> Fresh"

lemma began_simps [simp]: "\<not> began Fresh" "began (Busy ins)" "began Over"
  by (simp_all add: began_def)

text \<open>A length that the server expects is the one of the header in its buffer.\<close>

definition header_known :: "string \<Rightarrow> u32 \<Rightarrow> bool" where
  "header_known b n \<longleftrightarrow> (n \<noteq> 0 \<longrightarrow> headersize \<le> length b \<and> n = un_le32 b)"

lemma header_known_zero [simp]: "header_known b 0"
  by (simp add: header_known_def)

text \<open>
  \<open>serving E sp c out b ph srv\<close>: the command is \<open>c\<close>, the bytes sent or held for sending are
  \<open>out\<close>, those received and not yet used are \<open>b\<close>.
\<close>

definition serving :: "s3tp_env \<Rightarrow> string list \<Rightarrow> string \<Rightarrow> string \<Rightarrow> string \<Rightarrow> phase \<Rightarrow> s3tp_server \<Rightarrow> bool" where
  "serving E sp c out b ph srv \<longleftrightarrow>
     sent E srv @ outbuf srv = out \<and> channel srv \<and> buf srv = b \<and> header_known b (expected srv) \<and>
     spawned srv = sp @ (if began ph then [c] else []) \<and> in_phase c ph (process srv)"

text \<open>What the sending operations leave alone: what was started and what was received.\<close>

definition kept :: "s3tp_env \<Rightarrow> s3tp_server \<Rightarrow> s3tp_server \<Rightarrow> bool" where
  "kept E srv s \<longleftrightarrow>
     spawned s = spawned srv \<and> buf s = buf srv \<and> expected s = expected srv \<and>
     length (sent E srv) \<le> length (sent E s)"

lemma kept_trans: "kept E r s \<Longrightarrow> kept E s t \<Longrightarrow> kept E r t"
  by (auto simp: kept_def)

lemma kept_update [simp]:
  "kept E (srv\<lparr>process := P\<rparr>) s = kept E srv s" "kept E srv (s\<lparr>process := P\<rparr>) = kept E srv s"
  "kept E (srv\<lparr>outbuf := d\<rparr>) s = kept E srv s" "kept E srv (s\<lparr>outbuf := d\<rparr>) = kept E srv s"
  by (simp_all add: kept_def server_simps)

lemma send_buf_kept:
  assumes "lossless E" and "send_buf E srv = Inr (b, s)"
  shows "kept E srv s"
proof -
  let ?r = "send_result E (trace srv) (outbuf srv)"
  have "?r = ERROR_BUFFER_FULL E \<or> \<not> ?r < 0"
    using assms(1) by (auto simp: lossless_def not_less)
  with assms(2) show ?thesis
    by (auto simp: send_buf_def Let_def disconnect_def kept_def server_simps
        stop_process_output_def split: if_splits)
qed

lemma send_kept:
  assumes "lossless E" and "send E msg n ty srv = Inr s"
  shows "kept E srv s"
proof -
  have upd: "kept E t s" if "update_events E t = Inr s" for t
    using that by (auto simp: update_events_def kept_def server_simps split: if_splits)
  from assms(2) show ?thesis
    by (auto simp: send_def Let_def outcome_simps kept_def server_simps split: if_splits
        dest!: send_buf_kept [OF assms(1)] upd)
qed

lemma exit_callback_kept:
  assumes "lossless E" and "exit_callback E code srv = Inr s"
  shows "kept E srv s"
proof -
  obtain t where t: "send E (exit_text code) (word_of_nat (length (exit_text code))) ENDOFFILE srv = Inr t"
    and s: "(if outbuf t \<noteq> [] then and_then (send_buf E (t\<lparr>process := None\<rparr>)) (\<lambda>(_, srv). Inr srv)
      else disconnect (t\<lparr>process := None\<rparr>)) = Inr s"
    using assms(2) by (auto simp: exit_callback_def outcome_simps Let_def split: if_splits)
  have "kept E t s"
    using s send_buf_kept [OF assms(1), of "t\<lparr>process := None\<rparr>"]
    by (auto simp: outcome_simps disconnect_def kept_def server_simps split: if_splits)
  with send_kept [OF assms(1) t] show ?thesis
    by (rule kept_trans)
qed

lemma kept_serving:
  assumes "kept E srv s" and "serving E sp c out b ph srv" and "sent E s @ outbuf s = out'"
    and "channel s" and "in_phase c ph' (process s)" and "began ph' \<longleftrightarrow> began ph"
  shows "serving E sp c out' b ph' s"
  using assms by (auto simp: serving_def kept_def)

lemma process_wf_written [simp]: "process_wf (p\<lparr>written := w\<rparr>) = process_wf p"
  by (simp add: process_wf_def)

lemma in_phase_output [simp]:
  "in_phase c ph (map_option stop_output P) = in_phase c ph P"
  "in_phase c ph (map_option start_output P) = in_phase c ph P"
  by (cases ph; cases P; simp add: stop_output_def start_output_def process_wf_def)+

subsection \<open>Sending\<close>

lemma read_callback_serves:
  assumes "lossless E" and "serving E sp c out b (Busy ins) srv" and "framable d" and "d \<noteq> []"
  shows "yields (\<lambda>s. serving E sp c (out @ frame (out_type is_out) d) b (Busy ins) s \<and>
      length (sent E srv) \<le> length (sent E s))
    (read_callback E is_out (int (length d)) d srv)"
proof -
  let ?ty = "out_type is_out"
  have up: "channel srv" and ty: "?ty \<noteq> NONE" "(if is_out then STDOUT else STDERR) = ?ty"
    using assms(2) by (simp_all add: serving_def out_type_def)
  have eq: "read_callback E is_out (int (length d)) d srv = send E d (word_of_nat (length d)) ?ty srv"
    using assms(4) ty(2) by (simp add: read_callback_def)
  obtain s where s: "send E d (word_of_nat (length d)) ?ty srv = Inr s" "channel s"
    "sent E s @ outbuf s = sent E srv @ outbuf srv @ frame ?ty d"
    "process s = process srv \<or> process s = map_option stop_output (process srv)"
    using send_lossless [OF assms(1) up assms(3) ty(1)] by (auto simp: yields_iff)
  have k: "kept E srv s"
    by (rule send_kept [OF assms(1) s(1)])
  have "in_phase c (Busy ins) (process s)"
    using s(4) assms(2) by (metis in_phase_output(1) serving_def)
  then have "serving E sp c (out @ frame ?ty d) b (Busy ins) s"
    using s(2,3) assms(2) by (intro kept_serving [OF k assms(2)]) (simp_all add: serving_def)
  with k s(1) show ?thesis
    by (simp add: eq kept_def)
qed

lemma drained_serves:
  assumes "lossless E" and "serving E sp c out b ph srv"
  shows "yields (\<lambda>s. serving E sp c out b ph s \<and> length (sent E srv) \<le> length (sent E s)) (onBufferEmpty E srv)"
proof -
  let ?s = "srv\<lparr>process := map_option start_output (process srv)\<rparr>"
  have sv: "serving E sp c out b ph ?s" and up: "channel ?s"
    using assms(2) by (simp_all add: serving_def server_simps)
  obtain r s where s: "send_buf E ?s = Inr (r, s)" "channel s"
    "sent E s @ outbuf s = sent E ?s @ outbuf ?s"
    "process s = process ?s \<or> process s = map_option stop_output (process ?s)"
    using send_buf_lossless [OF assms(1) up] by (auto simp: yields_iff)
  have k: "kept E ?s s"
    by (rule send_buf_kept [OF assms(1) s(1)])
  have "in_phase c ph (process s)"
    using s(4) sv by (metis in_phase_output(1) serving_def)
  then have "serving E sp c out b ph s"
    using s(2,3) sv by (intro kept_serving [OF k sv]) (simp_all add: serving_def)
  with k s(1) show ?thesis
    by (simp add: onBufferEmpty_def kept_def server_simps)
qed

lemma full_serves:
  assumes "serving E sp c out b ph srv"
  shows "yields (\<lambda>s. serving E sp c out b ph s \<and> sent E s = sent E srv) (onBufferFull srv)"
  using assms by (simp add: onBufferFull_def stop_process_output_def serving_def server_simps)

lemma polled_serves:
  assumes "serving E sp c out b ph srv"
  shows "yields (\<lambda>s. serving E sp c out b ph s \<and> sent E s = sent E srv) (update_events E srv)"
  using assms by (simp add: update_events_def serving_def server_simps accepted_def)

lemma exit_serves:
  assumes "dependable E" and "serving E sp c out b (Busy ins) srv" and "sig \<noteq> SIGTERM"
    and "framable (exit_text status)"
  shows "yields (\<lambda>s. serving E sp c (out @ frame ENDOFFILE (exit_text status)) b Over s \<and>
      length (sent E srv) \<le> length (sent E s))
    (process_exited E status sig srv)"
proof -
  obtain p where p: "process srv = Some p" "process_wf p" and up: "channel srv"
    using assms(2) by (auto simp: serving_def)
  obtain q where q: "exit_cb status sig p = Inr (q, True)" and code: "exit_code q = status"
    using exit_cb_yields [OF p(2), of status sig] assms(3) by (auto simp: yields_iff)
  let ?s = "srv\<lparr>process := Some q\<rparr>"
  have eq: "process_exited E status sig srv = exit_callback E status ?s"
    by (simp add: process_exited_def p(1) q code)
  obtain s where s: "exit_callback E status ?s = Inr s"
    "winding_up E (sent E ?s @ outbuf ?s @ frame ENDOFFILE (exit_text status)) (disconnects ?s) s"
    using exit_callback_winds_up [OF dependableD(1) [OF assms(1)] _ _ assms(4) dependableD(2) [OF assms(1)], of ?s] up
    by (auto simp: yields_iff)
  have k: "kept E srv s"
    using exit_callback_kept [OF dependableD(1) [OF assms(1)] s(1)] by simp
  have "serving E sp c (out @ frame ENDOFFILE (exit_text status)) b Over s"
    using s(2) assms(2) by (intro kept_serving [OF k assms(2)]) (auto simp: winding_up_def serving_def server_simps)
  with k s(1) show ?thesis
    by (simp add: eq kept_def)
qed

subsection \<open>Receiving\<close>

text \<open>
  One call of \<open>onDataReceived\<close>: either the frame at the front of the buffer is not complete,
  and the server waits; or it is complete, and it alone is handled.
\<close>

lemma piece_cases:
  assumes "buf srv = b" and "header_known b (expected srv)"
    and "(b @ d) @ rest = concat (map enc_message fs)"
    and "\<forall>(t, m)\<in>set fs. framable m \<and> m \<noteq> []"
  shows "(\<exists>n. onDataReceived E g d srv = Inr (srv\<lparr>buf := b @ d, expected := n\<rparr>) \<and> header_known (b @ d) n) \<or>
    (\<exists>t m fs' b' ty. fs = (t, m) # fs' \<and> b @ d = frame t m @ b' \<and> ty \<in> {mt_byte t, g} \<and>
      onDataReceived E g d srv =
        handle_frame E ty (srv\<lparr>buf := frame t m @ b', expected := word_of_nat (length m)\<rparr>))"
proof -
  obtain x ty where h: "header g (b @ d) srv = (x, ty)"
    by force
  note eq = onDataReceived_cases [OF arg_cong [OF assms(1) [symmetric], of "\<lambda>b. b @ d"] h, of E]
  show ?thesis
  proof (cases "length (b @ d) < headersize")
    case True
    then have "expected srv = 0"
      using assms(2) by (auto simp: header_known_def)
    with True eq show ?thesis
      by (intro disjI1 exI [of _ 0]) (cases srv; simp)
  next
    case False
    then obtain t m fs' where fs: "fs = (t, m) # fs'" and m: "framable m" "m \<noteq> []"
      using assms(3,4) by (cases fs) (auto simp: headersize_def)
    have len: "unat (word_of_nat (length m) :: u32) = length m"
      by (rule unat_frame_length [OF m(1)])
    have str: "(b @ d) @ rest = frame t m @ concat (map enc_message fs')"
      using assms(3) by (simp add: fs enc_message_def)
    have hd: "un_le32 (b @ d) = word_of_nat (length m)" "(b @ d) ! 4 = mt_byte t"
    proof -
      have "un_le32 ((b @ d) @ rest) = un_le32 (b @ d)" "((b @ d) @ rest) ! 4 = (b @ d) ! 4"
        using False by (simp_all only: un_le32_append nth_append headersize_def not_less) simp_all
      then show "un_le32 (b @ d) = word_of_nat (length m)" "(b @ d) ! 4 = mt_byte t"
        unfolding str by simp_all
    qed
    have x: "x = word_of_nat (length m)" and ty: "ty \<in> {mt_byte t, g}"
      using h hd assms(2) by (auto simp: header_def header_known_def un_le32_append headersize_def split: if_splits)
    have nz: "x \<noteq> 0"
      using m by (simp add: x frame_length_zero)
    show ?thesis
    proof (cases "length (b @ d) < headersize + length m")
      case True
      with eq False nz x len hd(1) show ?thesis
        by (intro disjI1 exI [of _ x]) (simp add: header_known_def)
    next
      case complete: False
      then have "length (frame t m) \<le> length (b @ d)"
        by simp
      then obtain b' where b': "b @ d = frame t m @ b'"
        using str by (metis append_eq_append_conv_if append_take_drop_id)
      with eq False complete nz x len ty fs show ?thesis
        by (intro disjI2) auto
    qed
  qed
qed

lemma input_frame_serves:
  assumes "serving E sp c out b0 (Busy ins) srv" and "framable m" and "ty \<noteq> mt_byte ENDOFFILE"
  shows "yields (\<lambda>s. serving E sp c out b (Busy (ins @ [m])) s \<and> sent E s = sent E srv)
    (handle_frame E ty (srv\<lparr>buf := frame t m @ b, expected := word_of_nat (length m)\<rparr>))"
proof -
  obtain p where p: "process srv = Some p" "has_in p = Some True"
    using assms(1) by (auto simp: serving_def)
  show ?thesis
    using frame_handled [OF p assms(2), of E ty t b] assms(1,3) p(1)
    by (simp add: serving_def server_simps)
qed

lemma start_frame_serves:
  assumes "lossless E" and "can_spawn E" and "serving E sp c out b0 Fresh srv" and "framable c"
  shows "yields (\<lambda>s. serving E sp c (out @ frame STARTED []) b (Busy []) s \<and>
      length (sent E srv) \<le> length (sent E s))
    (handle_frame E ty (srv\<lparr>buf := frame t c @ b, expected := word_of_nat (length c)\<rparr>))"
proof -
  let ?n = "word_of_nat (length c) :: u32"
  let ?s = "srv\<lparr>buf := frame t c @ b, expected := ?n\<rparr>"
  define p where "p = fst (Process_new 0 c True)"
  have p: "Process_new 0 c True = (p, False)" and new: "cmd p = c" "written p = []"
    "has_in p = Some True" "process_wf p" "running p"
    by (simp_all add: p_def Process_new_def Let_def process_wf_def)
  have n: "unat ?n = length c"
    by (rule unat_frame_length [OF assms(4)])
  have none: "process srv = None" and up: "channel srv"
    using assms(3) by (simp_all add: serving_def)
  let ?t = "log_call (Spawn c 0) ?s\<lparr>process := Some p\<rparr>"
  have up': "channel ?t"
    using up by (simp add: server_simps)
  obtain u where u: "send E [] 0 STARTED ?t = Inr u" "channel u"
    "sent E u @ outbuf u = sent E srv @ outbuf srv @ frame STARTED []"
    "process u = Some p \<or> process u = Some (stop_output p)"
    using send_lossless [OF assms(1) up', of "[]" STARTED]
    by (auto simp: yields_iff framable_def server_simps accepted_def)
  have k: "kept E ?t u"
    by (rule send_kept [OF assms(1) u(1)])
  obtain q where q: "process u = Some q" "cmd q = c" "written q = []" "has_in q = Some True"
    "process_wf q" "running q"
    using u(4) new output_wf(3) [of p] by (auto simp: stop_output_def)
  let ?v = "u\<lparr>process := Some (start_output q)\<rparr>"
  have "start_command E c ?s = Inr ?v"
    using u(1) q(1) assms(2) by (simp add: start_command_def Let_def p can_spawn_def)
  moreover have "buf u = frame t c @ b" "expected u = ?n"
    using k by (simp_all add: kept_def server_simps)
  ultimately have eq: "handle_frame E ty ?s = Inr (?v\<lparr>buf := b, expected := 0\<rparr>)"
    using none by (simp add: handle_frame_def erase_front_def n)
  have "in_phase c (Busy []) (Some (start_output q))"
    using q output_wf(1) [of q] by (simp add: start_output_def)
  moreover have "spawned u = spawned srv @ [c]" "length (sent E srv) \<le> length (sent E u)"
    using k by (simp_all add: kept_def server_simps accepted_def)
  ultimately show ?thesis
    using u(2,3) assms(3) unfolding eq by (simp add: serving_def server_simps)
qed

text \<open>What a piece of the client's stream does, before the command and while it runs.\<close>

lemma piece_serves_fresh:
  assumes "lossless E" and "can_spawn E" and "serving E sp c out b Fresh srv"
    and "(b @ d) @ rest = concat (map enc_message ((t, c) # fs))"
    and "\<forall>(t, m)\<in>set ((t, c) # fs). framable m \<and> m \<noteq> []"
  shows "yields (\<lambda>s. (serving E sp c out (b @ d) Fresh s \<or>
      (\<exists>b'. b @ d = frame t c @ b' \<and> serving E sp c (out @ frame STARTED []) b' (Busy []) s)) \<and>
      length (sent E srv) \<le> length (sent E s))
    (onDataReceived E g d srv)"
proof -
  have b: "buf srv = b" "header_known b (expected srv)"
    using assms(3) by (simp_all add: serving_def)
  have c: "framable c"
    using assms(5) by simp
  consider n where "onDataReceived E g d srv = Inr (srv\<lparr>buf := b @ d, expected := n\<rparr>)" "header_known (b @ d) n"
    | b' ty where "b @ d = frame t c @ b'" "onDataReceived E g d srv =
        handle_frame E ty (srv\<lparr>buf := frame t c @ b', expected := word_of_nat (length c)\<rparr>)"
    using piece_cases [OF b assms(4,5), of E g] by auto
  then show ?thesis
  proof cases
    case 1
    with assms(3) show ?thesis
      by (simp add: serving_def server_simps)
  next
    case 2
    show ?thesis
      unfolding 2(2)
      by (rule yields_mono [OF start_frame_serves [OF assms(1-3) c]]) (use 2(1) in blast)
  qed
qed

lemma piece_serves_busy:
  assumes "serving E sp c out b (Busy ins) srv"
    and "(b @ d) @ rest = concat (map enc_message (map (Pair STDIN) ms))"
    and "\<forall>m\<in>set ms. framable m \<and> m \<noteq> []" and "g \<noteq> mt_byte ENDOFFILE"
  shows "yields (\<lambda>s. (serving E sp c out (b @ d) (Busy ins) s \<or>
      (\<exists>m ms' b'. ms = m # ms' \<and> b @ d = frame STDIN m @ b' \<and> serving E sp c out b' (Busy (ins @ [m])) s)) \<and>
      sent E s = sent E srv)
    (onDataReceived E g d srv)"
proof -
  have b: "buf srv = b" "header_known b (expected srv)"
    using assms(1) by (simp_all add: serving_def)
  have ok: "\<forall>(t, m)\<in>set (map (Pair STDIN) ms). framable m \<and> m \<noteq> []"
    using assms(3) by auto
  consider n where "onDataReceived E g d srv = Inr (srv\<lparr>buf := b @ d, expected := n\<rparr>)" "header_known (b @ d) n"
    | m ms' b' ty where "ms = m # ms'" "b @ d = frame STDIN m @ b'" "ty \<noteq> mt_byte ENDOFFILE"
        "onDataReceived E g d srv =
        handle_frame E ty (srv\<lparr>buf := frame STDIN m @ b', expected := word_of_nat (length m)\<rparr>)"
    using piece_cases [OF b assms(2) ok, of E g]
  proof (elim disjE exE conjE)
    fix t m fs' b' ty
    assume "map (Pair STDIN) ms = (t, m) # fs'" "b @ d = frame t m @ b'" "ty \<in> {mt_byte t, g}"
      and eq: "onDataReceived E g d srv =
        handle_frame E ty (srv\<lparr>buf := frame t m @ b', expected := word_of_nat (length m)\<rparr>)"
    then obtain ms' where "ms = m # ms'" "t = STDIN" "ty \<noteq> mt_byte ENDOFFILE"
      using assms(4) by auto
    with \<open>b @ d = frame t m @ b'\<close> eq show thesis
      by (intro that(2)) simp_all
  qed (rule that(1))
  then show ?thesis
  proof cases
    case 1
    with assms(1) show ?thesis
      by (simp add: serving_def server_simps)
  next
    case 2
    then have "framable m"
      using assms(3) by simp
    show ?thesis
      unfolding 2(4)
      by (rule yields_mono [OF input_frame_serves [OF assms(1) \<open>framable m\<close> 2(3)]]) (use 2(1,2) in blast)
  qed
qed

subsection \<open>Property\<close>

text \<open>
  C34: input that comes late is a command. Assume that the library never fails to send, that
  processes can be started and that the exit callback survives its own destruction. When the
  command has exited, not by SIGTERM, and the last input
  that the user typed for it arrives after that, in any pieces, the server starts a new
  process whose command is this input, and reports its start behind the exit; whether the
  library has taken the exit frame or not.
\<close>

theorem late_input_is_executed:
  assumes "dependable E" and "can_spawn E" and "channel srv" and "process srv = Some p" and "process_wf p"
    and "buf srv = []" and "expected srv = 0"
    and "sig \<noteq> SIGTERM" and "framable (exit_text status)"
    and "framable d" and "d \<noteq> []" and "concat (map snd cs) = frame STDIN d"
  shows "yields (\<lambda>s. spawned s = spawned srv @ [d] \<and>
      (\<exists>q. process s = Some q \<and> cmd q = d \<and> written q = [] \<and> running q) \<and>
      sent E s @ outbuf s =
        sent E srv @ outbuf srv @ frame ENDOFFILE (exit_text status) @ frame STARTED [] \<and> channel s)
    (and_then (process_exited E status sig srv) (receive E cs))"
proof -
  let ?out = "sent E srv @ outbuf srv @ frame ENDOFFILE (exit_text status)"
  note loss = dependableD(1) [OF assms(1)]
  have exit: "yields (\<lambda>s. serving E (spawned srv) d ?out [] Fresh s \<and> expected s = 0) (process_exited E status sig srv)"
  proof -
    obtain q where q: "exit_cb status sig p = Inr (q, True)" and code: "exit_code q = status"
      using exit_cb_yields [OF assms(5), of status sig] assms(8) by (auto simp: yields_iff)
    have eq: "process_exited E status sig srv = exit_callback E status (srv\<lparr>process := Some q\<rparr>)"
      by (simp add: process_exited_def assms(4) q code)
    have "yields (winding_up E ?out (disconnects srv)) (exit_callback E status (srv\<lparr>process := Some q\<rparr>))"
      using exit_callback_winds_up [OF loss _ _ assms(9) dependableD(2) [OF assms(1)], of "srv\<lparr>process := Some q\<rparr>"] assms(3)
      by (simp add: server_simps)
    then show ?thesis
      using exit_callback_kept [OF loss, of status "srv\<lparr>process := Some q\<rparr>"] assms(6,7)
      by (auto simp: eq yields_iff winding_up_def serving_def kept_def server_simps)
  qed
  have late: "yields (\<lambda>s. serving E (spawned srv) d (?out @ frame STARTED []) [] (Busy []) s) (receive E cs s)"
    if s: "serving E (spawned srv) d ?out [] Fresh s" "expected s = 0" for s
  proof -
    let ?n = "word_of_nat (length d) :: u32"
    have "awaiting [] ?n s = s" and none: "process s = None"
      using s by (simp_all add: awaiting_def headersize_def serving_def)
    moreover have "concat (map snd cs) \<noteq> []"
      by (simp add: assms(12) frame_def)
    ultimately obtain cs' where empty: "\<forall>c\<in>set cs'. snd c = []"
      and eq: "receive E cs s = and_then
        (handle_frame E (mt_byte STDIN) (s\<lparr>buf := frame STDIN d, expected := ?n\<rparr>)) (receive E cs')"
      using receive_pieces [OF none assms(10,11), of STDIN "[]" cs E] assms(12) by auto
    have "yields (\<lambda>s. serving E (spawned srv) d (?out @ frame STARTED []) [] (Busy []) s)
        (handle_frame E (mt_byte STDIN) (s\<lparr>buf := frame STDIN d @ [], expected := ?n\<rparr>))"
      by (rule yields_mono [OF start_frame_serves [OF loss assms(2) s(1) assms(10)]]) simp
    then show ?thesis
      unfolding eq append_Nil2
      by (rule yields_and_then) (simp add: receive_nothing empty serving_def)
  qed
  show ?thesis
    by (rule yields_mono [OF yields_and_then [OF exit late]]) (auto simp: serving_def)
qed

lemma late_input_is_executed_witness:
  "yields (\<lambda>s. spawned s = [''rm x''])
    (and_then (process_exited link_env 0 0 (server1\<lparr>process := Some child1\<rparr>))
      (receive link_env [(CHR 0x00, take 6 (frame STDIN ''rm x'')), (CHR 0x00, drop 6 (frame STDIN ''rm x''))]))"
proof -
  have "framable (exit_text 0)"
    by (simp add: framable_def exit_text_def show_int_def show_nat.simps)
  moreover have "dependable link_env"
    by (simp add: dependable_def lossless_def)
  ultimately show ?thesis
    by (intro yields_mono [OF late_input_is_executed [where p = child1 and d = "''rm x''"]])
      (simp_all add: SIGTERM_def framable_def spawned_def)
qed

end
