(* ===== verification/RemoteexecMain.thy ===== *)
theory RemoteexecMain
  imports Remoteexec
begin

text \<open>
  The client program, \<open>main\<close> of \<^verbatim>\<open>test/s3tp/remoteexec.cpp\<close> with the callbacks
  \<open>onConnected\<close> and \<open>onDisconnected\<close>. Two threads run: \<open>main\<close>, and the one in which the
  S3TP library makes its callbacks. A run is a list of inputs, each a callback or one
  advance of \<open>main\<close>: its arrival at the wait for the connection, a wake-up without cause,
  or one round of its loop. What the library, \<open>select\<close> and \<open>read\<close> return is given.
\<close>

subsection \<open>State\<close>

text \<open>
  Where \<open>main\<close> is: on its way to the wait, in it, in the loop, ended with an exit status, or
  the program ended by an exception that nobody catches.
\<close>

datatype main_pc = Connecting | Waiting | Polling | Ended int | Aborted

record client_env =
  bind_error :: int
  connect_result :: int
  channel_send :: "string list \<Rightarrow> string \<Rightarrow> int"
  channel_connected :: bool

text \<open>
  \<open>callbacks\<close> is the callback object, \<open>stdin_open\<close> the variable \<open>has_in\<close>; \<open>writes\<close> lists the
  buffers handed to the channel, and \<open>hung_up\<close> says whether \<open>main\<close> disconnected it.
\<close>

record remoteexec =
  main_at :: main_pc
  callbacks :: client
  stdin_open :: bool
  writes :: "string list"
  hung_up :: bool

datatype client_input =
    ConnectionUp
  | ConnectionDown
  | Arrives string
  | StartsWaiting
  | SpuriousWakeup
  | Round int bool int string

subsection \<open>The program\<close>

definition write_message :: "client_env \<Rightarrow> message_type \<times> string \<Rightarrow> remoteexec \<Rightarrow> remoteexec \<times> bool" where
  "write_message C m r =
     (let (sendbuf, ok) = writeData (channel_send C (writes r)) (snd m) (fst m)
      in (r\<lparr>writes := writes r @ [sendbuf]\<rparr>, ok))"

text \<open>The part of \<open>main\<close> before the wait, for the words after the program's name.\<close>

definition client_main_start :: "client_env \<Rightarrow> char \<Rightarrow> string list \<Rightarrow> remoteexec" where
  "client_main_start C type0 args =
     \<lparr>main_at = (if args = [] then Ended 0
                 else if bind_error C \<noteq> 0 then Ended 1
                 else if connect_result C < 0 then Ended 1
                 else Connecting),
      callbacks = RemoteexecCallback_new type0, stdin_open = True, writes = [], hung_up = False\<rparr>"

text \<open>The wait is over, with or without a connection.\<close>

definition client_wakes :: "client_env \<Rightarrow> string list \<Rightarrow> remoteexec \<Rightarrow> remoteexec" where
  "client_wakes C args r =
     (let (r, ok) = write_message C (command_message args) r
      in if \<not> ok then r\<lparr>main_at := Ended 1\<rparr> else r\<lparr>main_at := Polling\<rparr>)"

text \<open>
  One round of the loop: \<open>ret\<close> is the result of \<open>select\<close>, \<open>isset\<close> whether it reports the
  standard input, \<open>n\<close> the result of \<open>read\<close> and \<open>data\<close> the buffer it filled.
\<close>

definition client_round :: "client_env \<Rightarrow> int \<Rightarrow> bool \<Rightarrow> int \<Rightarrow> string \<Rightarrow> remoteexec \<Rightarrow> remoteexec" where
  "client_round C ret isset n data r =
     (if \<not> client_running (callbacks r)
      then r\<lparr>hung_up := channel_connected C, main_at := Ended 0\<rparr>
      else if ret < 0 then r\<lparr>main_at := Aborted\<rparr>
      else if \<not> (stdin_open r \<and> isset) then r
      else if n < 0 then r\<lparr>main_at := Ended 1\<rparr>
      else
        let command = take (nat n) data;
            (r, ok) = write_message C (stdin_message command) (r\<lparr>stdin_open := (command \<noteq> [])\<rparr>)
        in if \<not> ok then r\<lparr>main_at := Ended 1\<rparr> else r)"

definition client_step :: "client_env \<Rightarrow> string list \<Rightarrow> client_input \<Rightarrow> remoteexec \<Rightarrow> remoteexec" where
  "client_step C args i r =
     (case main_at r of
        Ended st \<Rightarrow> r
      | Aborted \<Rightarrow> r
      | pc \<Rightarrow>
          (case i of
             ConnectionUp \<Rightarrow> if pc = Waiting then client_wakes C args r else r
           | ConnectionDown \<Rightarrow> r\<lparr>callbacks := (callbacks r)\<lparr>client_running := False\<rparr>\<rparr>
           | Arrives data \<Rightarrow>
               (case client_received data (callbacks r) of
                  Inl e \<Rightarrow> r\<lparr>main_at := Aborted\<rparr>
                | Inr c \<Rightarrow> r\<lparr>callbacks := c\<rparr>)
           | StartsWaiting \<Rightarrow> if pc = Connecting then r\<lparr>main_at := Waiting\<rparr> else r
           | SpuriousWakeup \<Rightarrow> if pc = Waiting then client_wakes C args r else r
           | Round ret isset n data \<Rightarrow>
               if pc = Polling then client_round C ret isset n data r else r))"

definition client_main :: "client_env \<Rightarrow> char \<Rightarrow> string list \<Rightarrow> client_input list \<Rightarrow> remoteexec" where
  "client_main C type0 args is = fold (client_step C args) is (client_main_start C type0 args)"

subsection \<open>What main writes\<close>

text \<open>
  The reads that \<open>main\<close> makes in a run: in its loop, while it runs and its input is open, in
  the rounds in which \<open>select\<close> reports the input and \<open>read\<close> succeeds.
\<close>

definition read_in :: "client_input \<Rightarrow> string list" where
  "read_in i = (case i of Round ret isset n data \<Rightarrow> if isset \<and> 0 \<le> n then [take (nat n) data] else [] | _ \<Rightarrow> [])"

definition at_input :: "remoteexec \<Rightarrow> bool" where
  "at_input r \<longleftrightarrow> main_at r = Polling \<and> client_running (callbacks r) \<and> stdin_open r"

fun main_reads :: "client_env \<Rightarrow> string list \<Rightarrow> client_input list \<Rightarrow> remoteexec \<Rightarrow> string list" where
  "main_reads C args [] r = []"
| "main_reads C args (i # is) r =
     (if at_input r then read_in i else []) @ main_reads C args is (client_step C args i r)"

abbreviation message_bytes :: "message_type \<times> string \<Rightarrow> string" where
  "message_bytes m \<equiv> fst (writeData (\<lambda>_. 1) (snd m) (fst m))"

lemma writeData_bytes: "fst (writeData send line ty) = fst (writeData (\<lambda>_. 1) line ty)"
  by (simp add: writeData_def Let_def)

lemma write_message_simps [simp]:
  "writes (fst (write_message C m r)) = writes r @ [message_bytes m]"
  "main_at (fst (write_message C m r)) = main_at r"
  "callbacks (fst (write_message C m r)) = callbacks r"
  "stdin_open (fst (write_message C m r)) = stdin_open r"
  using writeData_bytes [of "channel_send C (writes r)" "snd m" "fst m"]
  by (simp_all add: write_message_def case_prod_beta)

lemma client_round_writes:
  assumes "main_at r = Polling" and "main_at (client_round C ret isset n data r) = Polling"
  shows "writes (client_round C ret isset n data r) =
      writes r @ map (message_bytes \<circ> stdin_message) (if at_input r then read_in (Round ret isset n data) else [])"
  using assms
  by (auto simp: client_round_def read_in_def at_input_def case_prod_beta Let_def split: if_splits)

lemma step_stays_out:
  "main_at r = Ended st \<Longrightarrow> client_step C args i r = r" "main_at r = Aborted \<Longrightarrow> client_step C args i r = r"
  by (simp_all add: client_step_def)

lemma run_stays_out:
  "main_at r = Ended st \<Longrightarrow> fold (client_step C args) is r = r"
  "main_at r = Aborted \<Longrightarrow> fold (client_step C args) is r = r"
  by (induction "is") (simp_all add: step_stays_out)

lemma client_loop_writes:
  assumes "main_at r = Polling" and "main_at (fold (client_step C args) is r) = Polling"
  shows "writes (fold (client_step C args) is r) =
    writes r @ map (message_bytes \<circ> stdin_message) (main_reads C args is r)"
  using assms
proof (induction "is" arbitrary: r)
  case (Cons i "is")
  let ?r = "client_step C args i r"
  have at: "main_at ?r = Polling"
  proof -
    have "main_at ?r \<in> {Polling, Aborted} \<union> range Ended"
      using Cons.prems(1)
      by (auto simp: client_step_def client_round_def Let_def case_prod_beta
          split: client_input.splits sum.splits)
    with Cons.prems(2) show ?thesis
      by (auto simp: run_stays_out)
  qed
  have "writes ?r = writes r @ map (message_bytes \<circ> stdin_message) (if at_input r then read_in i else [])"
  proof (cases i)
    case (Round ret isset n data)
    then have "?r = client_round C ret isset n data r"
      using Cons.prems(1) by (simp add: client_step_def)
    with at show ?thesis
      unfolding Round by (simp only: client_round_writes [OF Cons.prems(1)])
  qed (use Cons.prems(1) in \<open>auto simp: client_step_def read_in_def split: sum.splits\<close>)
  then show ?case
    using Cons.IH [OF at] Cons.prems(2) by simp
qed simp

text \<open>Before the loop: \<open>main\<close> writes nothing until it is woken, and then the command.\<close>

lemma client_waits_silently:
  assumes "main_at r = Connecting \<or> main_at r = Waiting" and "writes r = []"
    and "main_at (fold (client_step C args) is r) = Polling"
  shows "writes (fold (client_step C args) is r) =
      message_bytes (command_message args) # map (message_bytes \<circ> stdin_message) (main_reads C args is r)"
  using assms
proof (induction "is" arbitrary: r)
  case (Cons i "is")
  let ?r = "client_step C args i r"
  have out: "\<not> at_input r"
    using Cons.prems(1) by (auto simp: at_input_def)
  show ?case
  proof (cases "main_at ?r = Connecting \<or> main_at ?r = Waiting")
    case True
    have "writes ?r = []"
      using Cons.prems(1,2) True
      by (auto simp: client_step_def client_wakes_def case_prod_beta Let_def
          split: client_input.splits sum.splits if_splits)
    with True Cons.IH [of ?r] Cons.prems(3) out show ?thesis
      by simp
  next
    case False
    have "main_at ?r = Polling"
    proof (cases "main_at ?r")
      case (Ended st)
      with Cons.prems(3) show ?thesis by (simp add: run_stays_out)
    next
      case Aborted
      with Cons.prems(3) show ?thesis by (simp add: run_stays_out)
    qed (use False in simp_all)
    moreover from this have "writes ?r = [message_bytes (command_message args)]"
      using Cons.prems(1,2)
      by (auto simp: client_step_def client_wakes_def case_prod_beta Let_def
          split: client_input.splits sum.splits if_splits)
    ultimately show ?thesis
      using client_loop_writes [of ?r C args "is"] Cons.prems(3) out by simp
  qed
qed auto

lemma client_main_writes:
  assumes "main_at (client_main C type0 args is) = Polling"
  shows "writes (client_main C type0 args is) =
      message_bytes (command_message args) #
      map (message_bytes \<circ> stdin_message) (main_reads C args is (client_main_start C type0 args))"
proof -
  have "main_at (client_main_start C type0 args) = Connecting"
    using assms
    by (cases "main_at (client_main_start C type0 args)")
      (auto simp: client_main_def run_stays_out client_main_start_def split: if_splits)
  then show ?thesis
    using client_waits_silently [of "client_main_start C type0 args" C args "is"] assms
    by (simp add: client_main_def client_main_start_def)
qed

subsection \<open>How main ends\<close>

text \<open>The global \<open>running\<close> is cleared exactly by the report of an exit.\<close>

definition heard_exit :: "client \<Rightarrow> bool" where
  "heard_exit c \<longleftrightarrow> (\<exists>t. Completed t \<in> set (heard c))"

definition running_iff :: "client \<Rightarrow> bool" where
  "running_iff c \<longleftrightarrow> (client_running c \<longleftrightarrow> \<not> heard_exit c)"

lemma note_of_Completed:
  "note_of ty d = Completed t \<longleftrightarrow> ty = mt_byte ENDOFFILE \<and> t = d"
  "Completed t = note_of ty d \<longleftrightarrow> ty = mt_byte ENDOFFILE \<and> t = d"
  by (auto simp: note_of_def mt_byte_eq)

lemma handleBuffer_running: "handleBuffer c = Inr (b, c') \<Longrightarrow> running_iff c \<Longrightarrow> running_iff c'"
  by (auto simp: handleBuffer_def Let_def running_iff_def heard_exit_def note_of_Completed split: if_splits)

lemma handle_all_running: "handle_all c = Inr c' \<Longrightarrow> running_iff c \<Longrightarrow> running_iff c'"
proof (induction c rule: handle_all.induct)
  case (1 c)
  then show ?case
    by (subst (asm) (2) handle_all.simps)
      (auto split: sum.splits if_splits dest: handleBuffer_running)
qed

text \<open>
  A run of the loop on a good day: every write and every read succeeds, and \<open>select\<close>
  reports no error.
\<close>

fun smooth :: "client_input \<Rightarrow> bool" where
  "smooth (Arrives data) = True"
| "smooth (Round ret isset n data) = (0 \<le> ret \<and> 0 \<le> n)"
| "smooth _ = False"

definition arrived :: "client_input list \<Rightarrow> string list" where
  "arrived is = concat (map (\<lambda>i. case i of Arrives d \<Rightarrow> [d] | _ \<Rightarrow> []) is)"

lemma arrived_simps [simp]:
  "arrived [] = []" "arrived (Arrives d # is) = d # arrived is"
  "arrived (Round ret isset n data # is) = arrived is"
  by (simp_all add: arrived_def)

lemma round_smooth:
  assumes "\<forall>h b. 0 < channel_send C h b" and "0 \<le> ret" and "0 \<le> n" and "main_at r = Polling"
  shows "main_at (client_round C ret isset n data r) =
      (if client_running (callbacks r) then Polling else Ended 0) \<and>
    callbacks (client_round C ret isset n data r) = callbacks r"
  using assms
  by (auto simp: client_round_def write_message_def writeData_def Let_def case_prod_beta not_le)

text \<open>
  The messages end with the report of the exit: when it has been heard, nothing is left.
\<close>

lemma exit_heard_last:
  assumes "client_holds [] c b ks" and "ms @ [(ENDOFFILE, d)] = ks @ ls"
    and "\<forall>m\<in>set ms. fst m \<noteq> ENDOFFILE" and "heard_exit c"
  shows "ls = []"
proof (rule ccontr)
  assume "ls \<noteq> []"
  then have "set ks \<subseteq> set ms"
    using assms(2) by (cases ls rule: rev_cases) auto
  with assms(3) have "\<forall>m\<in>set ks. fst m \<noteq> ENDOFFILE"
    by blast
  then show False
    using assms(1,4)
    by (fastforce simp: heard_exit_def client_holds_def note_of_message_def note_of_Completed)
qed

lemma client_loop_ends:
  assumes "\<forall>h b. 0 < channel_send C h b" and "\<forall>m\<in>set ms. fst m \<noteq> ENDOFFILE"
    and "\<forall>m\<in>set (ms @ [(ENDOFFILE, e)]). message_ok m"
    and "\<forall>i\<in>set is. smooth i" and "main_at r = Polling"
    and "client_holds [] (callbacks r) b ks" and "running_iff (callbacks r)"
    and "ms @ [(ENDOFFILE, e)] = ks @ ls"
    and "b @ concat (arrived is) = concat (map enc_message ls)"
    and "b = [] \<or> (\<exists>m f. m \<in> set ls \<and> b @ f = enc_message m \<and> f \<noteq> [])"
  shows "main_at (fold (client_step C args) is r) \<in> {Polling, Ended 0} \<and>
    heard (callbacks (fold (client_step C args) is r)) = map note_of_message ms @ [Completed e] \<and>
    \<not> client_running (callbacks (fold (client_step C args) is r))"
  using assms(4-)
proof (induction "is" arbitrary: r b ks ls)
  case Nil
  have "\<forall>m\<in>set ls. message_ok m"
    using assms(3) Nil.prems(5) by (metis Un_iff set_append)
  from client_reader.stream_end [OF this _ Nil.prems(7)] Nil.prems(6) have "ls = []"
    by simp
  then have "heard (callbacks r) = map note_of_message ms @ [Completed e]"
    using Nil.prems(3,5) by (auto simp: client_holds_def note_of_message_def note_of_def)
  then show ?case
    using Nil.prems(2,4) by (auto simp: running_iff_def heard_exit_def)
next
  case (Cons i "is")
  have ok: "\<forall>m\<in>set ls. message_ok m"
    using assms(3) Cons.prems(5) by (metis Un_iff set_append)
  show ?case
  proof (cases i)
    case (Arrives d)
    then have "(b @ d) @ concat (arrived is) = concat (map enc_message ls)"
      using Cons.prems(6) by simp
    from client_reader.piece_delivers [OF ok Cons.prems(3) this]
    obtain c' ks' ls' b' where c': "handle_all (client_push d (callbacks r)) = Inr c'" "ls = ks' @ ls'"
      "client_holds [] c' b' (ks @ ks')" "b' @ concat (arrived is) = concat (map enc_message ls')"
      "b' = [] \<or> (\<exists>m f. m \<in> set ls' \<and> b' @ f = enc_message m \<and> f \<noteq> [])"
      by blast
    have "running_iff (client_push d (callbacks r))"
      using Cons.prems(4) by (simp add: running_iff_def heard_exit_def client_push_def)
    with c'(1) have run: "running_iff c'"
      by (rule handle_all_running)
    have "client_step C args i r = r\<lparr>callbacks := c'\<rparr>"
      using Cons.prems(2) c'(1)
      by (simp add: client_step_def Arrives client_received_def client_push_def)
    then show ?thesis
      using Cons.IH [of "r\<lparr>callbacks := c'\<rparr>" b' "ks @ ks'" ls'] Cons.prems c' run by simp
  next
    case (Round ret isset n data)
    let ?r = "client_round C ret isset n data r"
    have step: "client_step C args i r = ?r"
      using Cons.prems(2) by (simp add: client_step_def Round)
    have at: "main_at ?r = (if client_running (callbacks r) then Polling else Ended 0)"
      and cb: "callbacks ?r = callbacks r"
      using round_smooth [OF assms(1) _ _ Cons.prems(2), of ret n isset data] Cons.prems(1) Round by auto
    show ?thesis
    proof (cases "client_running (callbacks r)")
      case True
      with Cons.IH [of ?r b ks ls] Cons.prems step at cb show ?thesis
        by (simp add: Round)
    next
      case False
      then have "heard_exit (callbacks r)"
        using Cons.prems(4) by (simp add: running_iff_def)
      with exit_heard_last [OF Cons.prems(3,5) assms(2)] have "ls = []" .
      then have "heard (callbacks r) = map note_of_message ms @ [Completed e]"
        using Cons.prems(3,5) by (auto simp: client_holds_def note_of_message_def note_of_def)
      with False at cb show ?thesis
        by (simp add: step run_stays_out)
    qed
  qed (use Cons.prems(1) in auto)
qed

subsection \<open>Properties\<close>

text \<open>
  The client writes what the user gave it. While the program runs its loop, it has
  written one frame for the command, and then one frame for every successful read of its
  standard input in order, up to the frame for the end of the input; whatever callbacks
  came in between, and however long it waited for the connection.
\<close>

lemma client_writes_its_input:
  assumes "main_at (client_main C type0 args is) = Polling"
  shows "writes (client_main C type0 args is) =
      map (\<lambda>(ty, line). fst (writeData (\<lambda>_. 1) line ty))
        (command_message args #
         map stdin_message (main_reads C args is (client_main_start C type0 args)))"
  using client_main_writes [OF assms] by (simp add: case_prod_beta')

definition client_env0 :: client_env where
  "client_env0 = \<lparr>bind_error = 0, connect_result = 0, channel_send = (\<lambda>_ _. 1), channel_connected = True\<rparr>"

lemma client_writes_its_input_witness:
  "writes (client_main client_env0 (CHR 0x00) [''cat''] [StartsWaiting, ConnectionUp, Round 1 True 1 ''a'']) =
     [fst (writeData (\<lambda>_. 1) (''cat'' @ [CHR 0x0A]) NONE), fst (writeData (\<lambda>_. 1) ''a'' STDIN)]"
proof -
  let ?is = "[StartsWaiting, ConnectionUp, Round 1 True 1 ''a'']"
  have "main_at (client_main client_env0 (CHR 0x00) [''cat''] ?is) = Polling"
    by (simp add: client_main_def client_main_start_def client_step_def client_wakes_def
        client_round_def write_message_def writeData_def Let_def client_env0_def RemoteexecCallback_new_def)
  moreover have "main_reads client_env0 [''cat''] ?is (client_main_start client_env0 (CHR 0x00) [''cat'']) = [''a'']"
    by (simp add: client_main_start_def client_step_def client_wakes_def at_input_def read_in_def
        client_round_def write_message_def writeData_def Let_def client_env0_def RemoteexecCallback_new_def)
  ultimately show ?thesis
    by (simp only: client_writes_its_input) (simp add: command_message_def stdin_message_def)
qed

text \<open>
  The client ends with the command. When the bytes of the server's messages, the last
  of them the exit of the command, have arrived in any pieces, between any rounds of the
  loop in which no call fails, the client has reported exactly these messages, and its
  next round ends the program with status 0.
\<close>

lemma client_ends_with_the_command:
  assumes "\<forall>h b. 0 < channel_send C h b" and "\<forall>i\<in>set is. smooth i"
    and "\<forall>(t, d)\<in>set ms. framable d \<and> (d \<noteq> [] \<or> t \<noteq> NONE) \<and> t \<noteq> ENDOFFILE" and "framable e"
    and "main_at r = Polling" and "callbacks r = RemoteexecCallback_new type0"
    and "concat (arrived is) = concat (map (\<lambda>(t, d). frame t d) (ms @ [(ENDOFFILE, e)]))"
  shows "main_at (fold (client_step C args) (is @ [Round ret isset n data]) r) = Ended 0 \<and>
    heard (callbacks (fold (client_step C args) (is @ [Round ret isset n data]) r)) =
      map (\<lambda>(t, d). note_of (mt_byte t) d) ms @ [Completed e]"
proof -
  let ?r = "fold (client_step C args) is r"
  have enc: "concat (map (\<lambda>(t, d). frame t d) ks) = concat (map enc_message ks)" for ks
    by (rule arg_cong [where f = concat], rule map_cong) (auto simp: enc_message_def)
  have last: "frame ENDOFFILE e = enc_message (ENDOFFILE, e)"
    by (simp add: enc_message_def)
  have "client_holds [] (callbacks r) [] []" and "running_iff (callbacks r)"
    using assms(6) by (simp_all add: client_holds_def RemoteexecCallback_new_def running_iff_def heard_exit_def)
  then have "main_at ?r \<in> {Polling, Ended 0} \<and> heard (callbacks ?r) = map note_of_message ms @ [Completed e] \<and>
      \<not> client_running (callbacks ?r)"
    using assms
    by (intro client_loop_ends [where b = "[]" and ks = "[]" and ls = "ms @ [(ENDOFFILE, e)]"])
      (auto simp: message_ok_def enc last)
  then show ?thesis
    by (auto simp: client_step_def client_round_def note_of_message_def case_prod_beta)
qed

lemma client_ends_with_the_command_witness:
  "main_at (fold (client_step client_env0 [''ls''])
      ([Arrives (frame STARTED [] @ take 7 (frame ENDOFFILE ''[exit] 0'')), Round 0 False 0 [],
        Arrives (drop 7 (frame ENDOFFILE ''[exit] 0''))] @ [Round 0 False 0 []])
      ((client_main_start client_env0 (CHR 0x00) [''ls''])\<lparr>main_at := Polling\<rparr>)) = Ended 0"
  by (rule client_ends_with_the_command [where ms = "[(STARTED, [])]" and e = "''[exit] 0''", THEN conjunct1])
    (simp_all add: client_env0_def client_main_start_def framable_def)

text \<open>
  C37: a wake-up can be lost. When the connection is reported before \<open>main\<close> waits for the
  report, is not reported a second time, and nothing wakes \<open>main\<close> without cause, \<open>main\<close> never
  gets further: it writes nothing, not even the command, and is still waiting, unless data
  arrived that the callbacks reject, whose exception ends the program.
\<close>

theorem early_connection_is_missed:
  assumes "args \<noteq> []" and "bind_error C = 0" and "0 \<le> connect_result C"
    and "ConnectionUp \<notin> set is" and "SpuriousWakeup \<notin> set is"
  shows "writes (client_main C type0 args ([ConnectionUp, StartsWaiting] @ is)) = [] \<and>
    (main_at (client_main C type0 args ([ConnectionUp, StartsWaiting] @ is)) = Waiting \<or>
     main_at (client_main C type0 args ([ConnectionUp, StartsWaiting] @ is)) = Aborted \<and>
       (\<exists>d. Arrives d \<in> set is))"
proof -
  have "writes (fold (client_step C args) is r) = [] \<and>
      (main_at (fold (client_step C args) is r) = Waiting \<or>
       main_at (fold (client_step C args) is r) = Aborted \<and> (\<exists>d. Arrives d \<in> set is))"
    if "main_at r = Waiting" "writes r = []" for r
    using assms(4,5) that
  proof (induction "is" arbitrary: r)
    case (Cons i "is")
    show ?case
    proof (cases "main_at (client_step C args i r) = Waiting")
      case True
      moreover have "writes (client_step C args i r) = []"
        using Cons.prems by (auto simp: client_step_def split: client_input.splits sum.splits)
      ultimately show ?thesis
        using Cons.IH [of "client_step C args i r"] Cons.prems(1,2) by auto
    next
      case False
      then have "main_at (client_step C args i r) = Aborted" "writes (client_step C args i r) = []"
        "\<exists>d. i = Arrives d"
        using Cons.prems by (auto simp: client_step_def split: client_input.splits sum.splits)
      then show ?thesis
        by (auto simp: run_stays_out)
    qed
  qed simp
  then show ?thesis
    using assms(1-3) by (simp add: client_main_def client_main_start_def client_step_def)
qed

lemma early_connection_is_missed_witness:
  "writes (client_main client_env0 (CHR 0x00) [''ls'']
     ([ConnectionUp, StartsWaiting] @ [Round 0 False 0 [], Arrives (frame STARTED []), ConnectionDown])) = []"
  by (rule early_connection_is_missed [THEN conjunct1]) (simp_all add: client_env0_def)

end
