(* ===== verification/RemoteSession.thy ===== *)
theory RemoteSession
  imports S3tpServing RemoteexecMain "HOL-Library.Sublist"
begin

text \<open>
  A remote shell session as a whole: the client program of \<^verbatim>\<open>test/s3tp/remoteexec.cpp\<close> and the
  server of \<^verbatim>\<open>src/server/s3tp.cpp\<close>, joined by two streams of bytes. Each stream carries what
  one side has sent; the S3TP library delivers the next part of it, of any length, at any
  time. The user types, the command writes output and exits, and the library is full or
  drained, in any order.
\<close>

subsection \<open>The session\<close>

text \<open>
  \<open>up_read\<close> and \<open>down_read\<close> count the bytes that have arrived at the server and at the
  client. The last three fields are the history: what the user typed, what the command
  wrote, and its exit status.
\<close>

record session =
  remote :: remoteexec
  server :: s3tp_server
  up_read :: nat
  down_read :: nat
  typed :: "string list"
  produced :: "(bool \<times> string) list"
  exit_status :: "int option"

text \<open>\<open>read\<close> on both sides takes at most \<open>1 << 16\<close> bytes at a time.\<close>

definition chunk_max :: nat where
  "chunk_max = 65536"

datatype session_event =
    Types string
  | Idle
  | Uplink char nat
  | Downlink nat
  | Produces bool string
  | Congests
  | Drains
  | Polls
  | Finishes int int

definition uplink :: "session \<Rightarrow> string" where
  "uplink s = concat (writes (remote s))"

definition downlink :: "s3tp_env \<Rightarrow> session \<Rightarrow> string" where
  "downlink E s = sent E (server s)"

definition session_step :: "s3tp_env \<Rightarrow> client_env \<Rightarrow> string list \<Rightarrow> session_event \<Rightarrow> session \<Rightarrow>
    session outcome" where
  "session_step E C args ev s =
     (case ev of
        Types d \<Rightarrow>
          if at_input (remote s) \<and> d \<noteq> [] \<and> length d \<le> chunk_max
          then Inr (s\<lparr>remote := client_step C args (Round 1 True (int (length d)) d) (remote s),
                      typed := typed s @ [d]\<rparr>)
          else Inr s
      | Idle \<Rightarrow> Inr (s\<lparr>remote := client_step C args (Round 0 False 0 []) (remote s)\<rparr>)
      | Uplink g k \<Rightarrow>
          let data = take k (drop (up_read s) (uplink s))
          in if channel (server s)
             then and_then (onDataReceived E g data (server s))
                    (\<lambda>srv. Inr (s\<lparr>server := srv, up_read := up_read s + length data\<rparr>))
             else Inr s
      | Downlink k \<Rightarrow>
          let data = take k (drop (down_read s) (downlink E s))
          in Inr (s\<lparr>remote := client_step C args (Arrives data) (remote s),
                    down_read := down_read s + length data\<rparr>)
      | Produces is_out d \<Rightarrow>
          (case process (server s) of
             None \<Rightarrow> Inr s
           | Some p \<Rightarrow>
               if running p \<and> reading p \<and> pipes_open p \<and> d \<noteq> [] \<and> length d \<le> chunk_max
               then and_then (read_callback E is_out (int (length d)) d (server s))
                      (\<lambda>srv. Inr (s\<lparr>server := srv, produced := produced s @ [(is_out, d)]\<rparr>))
               else Inr s)
      | Congests \<Rightarrow>
          if channel (server s)
          then and_then (onBufferFull (server s)) (\<lambda>srv. Inr (s\<lparr>server := srv\<rparr>)) else Inr s
      | Drains \<Rightarrow>
          if channel (server s)
          then and_then (onBufferEmpty E (server s)) (\<lambda>srv. Inr (s\<lparr>server := srv\<rparr>)) else Inr s
      | Polls \<Rightarrow>
          if channel (server s)
          then and_then (update_events E (server s)) (\<lambda>srv. Inr (s\<lparr>server := srv\<rparr>)) else Inr s
      | Finishes status sig \<Rightarrow>
          (case process (server s) of
             None \<Rightarrow> Inr s
           | Some p \<Rightarrow>
               if running p
               then and_then (process_exited E status sig (server s))
                      (\<lambda>srv. Inr (s\<lparr>server := srv, exit_status := Some status\<rparr>))
               else Inr s))"

fun session_run :: "s3tp_env \<Rightarrow> client_env \<Rightarrow> string list \<Rightarrow> session_event list \<Rightarrow> session \<Rightarrow>
    session outcome" where
  "session_run E C args [] s = Inr s"
| "session_run E C args (ev # evs) s = and_then (session_step E C args ev s) (session_run E C args evs)"

text \<open>
  The start of a session: the client has been connected, has written its command and is in
  its loop; the server is idle.
\<close>

definition session_new :: "s3tp_env \<Rightarrow> client_env \<Rightarrow> char \<Rightarrow> string list \<Rightarrow> s3tp_server \<Rightarrow> session" where
  "session_new E C type0 args srv =
     \<lparr>remote = client_main C type0 args [StartsWaiting, ConnectionUp], server = srv, up_read = 0,
      down_read = length (sent E srv), typed = [], produced = [], exit_status = None\<rparr>"

text \<open>
  Runs in which the server gets no more input after the exit of the command, no process is
  killed by \<open>SIGTERM\<close>, exit codes fit into a frame, and the uninitialised type of a split
  frame is not the one that ends the input.
\<close>

fun is_uplink :: "session_event \<Rightarrow> bool" where
  "is_uplink (Uplink g k) = True"
| "is_uplink _ = False"

fun courteous :: "session_event list \<Rightarrow> bool" where
  "courteous [] = True"
| "courteous (Finishes status sig # evs) \<longleftrightarrow>
     sig \<noteq> SIGTERM \<and> framable (exit_text status) \<and> \<not> list_ex is_uplink evs \<and> courteous evs"
| "courteous (Uplink g k # evs) \<longleftrightarrow> g \<noteq> mt_byte ENDOFFILE \<and> courteous evs"
| "courteous (ev # evs) \<longleftrightarrow> courteous evs"

subsection \<open>The invariant\<close>

text \<open>The messages of the client, and those of the server.\<close>

definition asked :: "string list \<Rightarrow> string list \<Rightarrow> message list" where
  "asked args ts = command_message args # map (Pair STDIN) ts"

definition answered :: "bool \<Rightarrow> (bool \<times> string) list \<Rightarrow> int option \<Rightarrow> message list" where
  "answered started os x =
     (if started then [(STARTED, [])] else []) @ map (\<lambda>(b, d). (out_type b, d)) os @
     (case x of None \<Rightarrow> [] | Some status \<Rightarrow> [(ENDOFFILE, exit_text status)])"

text \<open>What is left of the client's messages when the server is in a phase.\<close>

fun unread :: "string list \<Rightarrow> string list \<Rightarrow> phase \<Rightarrow> message list \<Rightarrow> bool" where
  "unread args ts Fresh ls \<longleftrightarrow> ls = asked args ts"
| "unread args ts (Busy ins) ls \<longleftrightarrow> (\<exists>rs. ts = ins @ rs \<and> ls = map (Pair STDIN) rs)"
| "unread args ts Over ls \<longleftrightarrow> True"

definition upstream :: "string list \<Rightarrow> phase \<Rightarrow> string \<Rightarrow> session \<Rightarrow> bool" where
  "upstream args ph b s \<longleftrightarrow>
     writes (remote s) = map enc_message (asked args (typed s)) \<and>
     (\<forall>d\<in>set (typed s). framable d \<and> d \<noteq> []) \<and>
     (\<exists>ls. unread args (typed s) ph ls \<and>
       (ph = Over \<or>
        up_read s \<le> length (uplink s) \<and> b @ drop (up_read s) (uplink s) = concat (map enc_message ls)))"

text \<open>
  \<open>hearing ms todo c\<close>: of the messages \<open>ms\<close> the client has reported the first ones, and will
  report the others when the bytes \<open>todo\<close> have arrived.
\<close>

definition hearing :: "message list \<Rightarrow> string \<Rightarrow> client \<Rightarrow> bool" where
  "hearing ms todo c \<longleftrightarrow>
     (\<exists>hs ns b. ms = hs @ ns \<and> client_holds [] c b hs \<and> b @ todo = concat (map enc_message ns) \<and>
        (b = [] \<or> (\<exists>m e. m \<in> set ns \<and> b @ e = enc_message m \<and> e \<noteq> [])))"

definition downstream :: "s3tp_env \<Rightarrow> message list \<Rightarrow> session \<Rightarrow> bool" where
  "downstream E ms s \<longleftrightarrow>
     (\<forall>m\<in>set ms. message_ok m) \<and> running_iff (callbacks (remote s)) \<and>
     (main_at (remote s) = Polling \<or> main_at (remote s) = Ended 0 \<and> heard_exit (callbacks (remote s))) \<and>
     down_read s \<le> length (downlink E s) \<and>
     hearing ms (drop (down_read s) (downlink E s @ outbuf (server s))) (callbacks (remote s))"

definition session_inv :: "s3tp_env \<Rightarrow> string list \<Rightarrow> string \<Rightarrow> string list \<Rightarrow> phase \<Rightarrow> session \<Rightarrow> bool" where
  "session_inv E sp base args ph s \<longleftrightarrow>
     (\<exists>b. serving E sp (snd (command_message args))
        (base @ concat (map enc_message (answered (began ph) (produced s) (exit_status s)))) b ph (server s) \<and>
        upstream args ph b s) \<and>
     downstream E (answered (began ph) (produced s) (exit_status s)) s \<and>
     (exit_status s \<noteq> None \<longleftrightarrow> ph = Over) \<and> (ph = Fresh \<longrightarrow> produced s = [])"

subsection \<open>The server's stream at the client\<close>

lemma answered_snoc:
  "answered True os None @ [(out_type b, d)] = answered True (os @ [(b, d)]) None"
  "answered st os None @ [(ENDOFFILE, exit_text status)] = answered st os (Some status)"
  "answered False [] None @ [(STARTED, [])] = answered True [] None"
  "answered False [] None = []"
  by (simp_all add: answered_def)

lemma answered_no_exit: "\<forall>m\<in>set (answered st os None). fst m \<noteq> ENDOFFILE"
  by (auto simp: answered_def out_type_def split: if_splits)

lemma hearing_more:
  assumes "hearing ms todo c"
  shows "hearing (ms @ new) (todo @ concat (map enc_message new)) c"
proof -
  obtain hs ns b where "ms = hs @ ns" "client_holds [] c b hs" "b @ todo = concat (map enc_message ns)"
    "b = [] \<or> (\<exists>m e. m \<in> set ns \<and> b @ e = enc_message m \<and> e \<noteq> [])"
    using assms unfolding hearing_def by blast
  then show ?thesis
    unfolding hearing_def
    by (intro exI [of _ hs] exI [of _ "ns @ new"] exI [of _ b] conjI) auto
qed

lemma hearing_receives:
  assumes "hearing ms (d @ todo) c" and "\<forall>m\<in>set ms. message_ok m" and "running_iff c"
  shows "\<exists>c'. client_received d c = Inr c' \<and> hearing ms todo c' \<and> running_iff c'"
proof -
  obtain hs ns b where h: "ms = hs @ ns" "client_holds [] c b hs"
    "(b @ d) @ todo = concat (map enc_message ns)"
    using assms(1) unfolding hearing_def append_assoc by blast
  then have "\<forall>m\<in>set ns. message_ok m"
    using assms(2) by simp
  from client_reader.piece_delivers [OF this h(2,3)]
  obtain c' ks ns' b' where c': "handle_all (client_push d c) = Inr c'" "ns = ks @ ns'"
    "client_holds [] c' b' (hs @ ks)" "b' @ todo = concat (map enc_message ns')"
    "b' = [] \<or> (\<exists>m e. m \<in> set ns' \<and> b' @ e = enc_message m \<and> e \<noteq> [])"
    by blast
  have "hearing ms todo c'"
    using c' h(1) unfolding hearing_def
    by (intro exI [of _ "hs @ ks"] exI [of _ ns'] exI [of _ b']) simp
  moreover have "running_iff (client_push d c)"
    using assms(3) by (simp add: running_iff_def heard_exit_def client_push_def)
  ultimately show ?thesis
    using c'(1) handle_all_running [OF c'(1)] by (simp add: client_received_def client_push_def)
qed

lemma hearing_prefix: "hearing ms todo c \<Longrightarrow> prefix (heard c) (map note_of_message ms)"
  by (auto simp: hearing_def client_holds_def)

lemma hearing_end:
  assumes "hearing ms [] c" and "\<forall>m\<in>set ms. message_ok m"
  shows "heard c = map note_of_message ms"
proof -
  obtain hs ns b where h: "ms = hs @ ns" "client_holds [] c b hs" "b = concat (map enc_message ns)"
    "b = [] \<or> (\<exists>m e. m \<in> set ns \<and> b @ e = enc_message m \<and> e \<noteq> [])"
    using assms(1) unfolding hearing_def append_Nil2 by blast
  then have "ns = []"
    using client_reader.stream_end [OF _ h(3,4)] assms(2) by simp
  with h(1,2) show ?thesis
    by (simp add: client_holds_def)
qed

text \<open>A client that has heard of the exit has heard everything.\<close>

lemma hearing_exit:
  assumes "hearing (answered st os x) todo c" and "heard_exit c"
  shows "todo = [] \<and> x \<noteq> None"
proof -
  obtain hs ns b where h: "answered st os x = hs @ ns" "client_holds [] c b hs"
    "b @ todo = concat (map enc_message ns)"
    using assms(1) unfolding hearing_def by blast
  have "ns = [] \<and> x \<noteq> None"
  proof (cases x)
    case None
    then have "\<forall>m\<in>set hs. fst m \<noteq> ENDOFFILE"
      using answered_no_exit [of st os] h(1) by simp
    with h(2) assms(2) show ?thesis
      by (fastforce simp: heard_exit_def client_holds_def note_of_message_def note_of_Completed)
  next
    case (Some status)
    have "answered st os None @ [(ENDOFFILE, exit_text status)] = hs @ ns"
      using h(1) by (simp add: answered_snoc Some)
    from exit_heard_last [OF h(2) this answered_no_exit assms(2)] Some show ?thesis
      by simp
  qed
  with h(3) show ?thesis
    by simp
qed

lemma downstream_more:
  assumes "downstream E ms s" and "\<forall>m\<in>set new. message_ok m"
    and "remote s' = remote s" and "down_read s' = down_read s"
    and "sent E (server s') @ outbuf (server s') =
      (sent E (server s) @ outbuf (server s)) @ concat (map enc_message new)"
    and "length (sent E (server s)) \<le> length (sent E (server s'))"
  shows "downstream E (ms @ new) s'"
proof -
  have "down_read s \<le> length (sent E (server s))"
    using assms(1) by (simp add: downstream_def downlink_def)
  then have "drop (down_read s) (sent E (server s') @ outbuf (server s')) =
      drop (down_read s) (sent E (server s) @ outbuf (server s)) @ concat (map enc_message new)"
    unfolding assms(5) by simp
  then show ?thesis
    using assms hearing_more [of ms "drop (down_read s) (sent E (server s) @ outbuf (server s))" _ new]
    unfolding downstream_def downlink_def by auto
qed

lemma drop_take_drop:
  "n \<le> length xs \<Longrightarrow> drop n (xs @ ys) =
     take k (drop n xs) @ drop (n + length (take k (drop n xs))) (xs @ ys)"
  by (simp add: min_def) (metis add.commute append_take_drop_id drop_drop)

lemma downlink_step:
  assumes "downstream E (answered st os x) s"
  shows "yields (\<lambda>s'. downstream E (answered st os x) s' \<and> server s' = server s \<and>
      writes (remote s') = writes (remote s) \<and> typed s' = typed s \<and> produced s' = produced s \<and>
      exit_status s' = exit_status s \<and> up_read s' = up_read s)
    (session_step E C args (Downlink k) s)"
proof -
  define data where "data = take k (drop (down_read s) (downlink E s))"
  let ?s' = "s\<lparr>remote := client_step C args (Arrives data) (remote s), down_read := down_read s + length data\<rparr>"
  have step: "session_step E C args (Downlink k) s = Inr ?s'"
    by (simp add: session_step_def data_def)
  let ?todo = "drop (down_read s + length data) (downlink E s @ outbuf (server s))"
  have ok: "\<forall>m\<in>set (answered st os x). message_ok m" and run: "running_iff (callbacks (remote s))"
    and le: "down_read s \<le> length (downlink E s)"
    and h: "hearing (answered st os x) (data @ ?todo) (callbacks (remote s))"
    using assms drop_take_drop [of "down_read s" "downlink E s" "outbuf (server s)" k]
    by (simp_all add: downstream_def data_def del: drop_append)
  show ?thesis
  proof (cases "main_at (remote s) = Polling")
    case True
    obtain c' where c': "client_received data (callbacks (remote s)) = Inr c'"
      "hearing (answered st os x) ?todo c'" "running_iff c'"
      using hearing_receives [OF h ok run] by blast
    then have "client_step C args (Arrives data) (remote s) = remote s\<lparr>callbacks := c'\<rparr>"
      using True by (simp add: client_step_def)
    moreover have "down_read s + length data \<le> length (downlink E s)"
      using le by (simp add: data_def)
    ultimately show ?thesis
      using ok c'(2,3) True by (simp add: step downstream_def downlink_def)
  next
    case False
    then have main: "main_at (remote s) = Ended 0" and "heard_exit (callbacks (remote s))"
      using assms by (auto simp: downstream_def)
    with hearing_exit [OF h] have "data = []"
      by simp
    moreover have "client_step C args (Arrives data) (remote s) = remote s"
      using main by (simp add: client_step_def)
    ultimately have "?s' = s"
      by simp
    with assms step show ?thesis
      by simp
  qed
qed

lemma idle_step:
  assumes "downstream E ms s"
  shows "yields (\<lambda>s'. downstream E ms s' \<and> server s' = server s \<and>
      writes (remote s') = writes (remote s) \<and> typed s' = typed s \<and> produced s' = produced s \<and>
      exit_status s' = exit_status s \<and> up_read s' = up_read s \<and> down_read s' = down_read s \<and>
      callbacks (remote s') = callbacks (remote s) \<and>
      (heard_exit (callbacks (remote s)) \<longrightarrow> main_at (remote s') = Ended 0))
    (session_step E C args Idle s)"
proof -
  let ?r = "client_step C args (Round 0 False 0 []) (remote s)"
  have r: "callbacks ?r = callbacks (remote s)" "writes ?r = writes (remote s)"
    "main_at ?r = (if main_at (remote s) = Polling \<and> client_running (callbacks (remote s))
      then Polling else Ended 0)"
    using assms by (auto simp: downstream_def client_step_def client_round_def)
  then show ?thesis
    using assms by (simp add: session_step_def downstream_def downlink_def running_iff_def del: drop_append) blast
qed

subsection \<open>Every event keeps the invariant\<close>

lemma chunk_framable: "length d \<le> chunk_max \<Longrightarrow> framable d"
  by (simp add: chunk_max_def framable_def)

lemma enc_message_Pair: "enc_message (t, d) = frame t d"
  by (simp add: enc_message_def)

lemma session_invI:
  assumes "serving E sp (snd (command_message args)) (base @ concat (map enc_message ms)) b ph (server s)"
    and "upstream args ph b s" and "downstream E ms s"
    and "ms = answered (began ph) (produced s) (exit_status s)"
    and "exit_status s \<noteq> None \<longleftrightarrow> ph = Over" and "ph = Fresh \<longrightarrow> produced s = []"
  shows "session_inv E sp base args ph s"
  using assms unfolding session_inv_def by blast

text \<open>The server moves on and has sent the messages \<open>new\<close>.\<close>

lemma server_moves:
  assumes "downstream E ms s" and "serving E sp c (base @ concat (map enc_message ms)) b ph (server s)"
    and "serving E sp c (base @ concat (map enc_message (ms @ new))) b' ph' srv"
    and "length (sent E (server s)) \<le> length (sent E srv)" and "\<forall>m\<in>set new. message_ok m"
    and "remote s' = remote s" and "down_read s' = down_read s" and "server s' = srv"
  shows "downstream E (ms @ new) s'"
  using assms(2,3) by (intro downstream_more [OF assms(1,5-7)]) (simp_all add: assms(4,8) serving_def)

lemma upstream_same:
  assumes "upstream args ph b s" and "remote s' = remote s" and "typed s' = typed s" and "up_read s' = up_read s"
  shows "upstream args ph b s'"
  using assms(1) unfolding upstream_def uplink_def assms(2-4) .

text \<open>The events of the server alone, while its phase stays the same.\<close>

lemma server_step_inv:
  assumes "session_inv E sp base args ph s"
    and "\<And>c out b. serving E sp c out b ph (server s) \<Longrightarrow>
      yields (\<lambda>srv. serving E sp c (out @ concat (map enc_message new)) b ph srv \<and>
        length (sent E (server s)) \<le> length (sent E srv)) m"
    and "\<forall>m\<in>set new. message_ok m"
    and "answered (began ph) (produced s @ os) (exit_status s) = answered (began ph) (produced s) (exit_status s) @ new"
    and "ph = Fresh \<longrightarrow> os = []"
  shows "yields (session_inv E sp base args ph)
    (and_then m (\<lambda>srv. Inr (s\<lparr>server := srv, produced := produced s @ os\<rparr>)))"
proof -
  let ?ms = "answered (began ph) (produced s) (exit_status s)"
  obtain b where sv: "serving E sp (snd (command_message args)) (base @ concat (map enc_message ?ms)) b ph (server s)"
    and up: "upstream args ph b s" and down: "downstream E ?ms s"
    and ex: "exit_status s \<noteq> None \<longleftrightarrow> ph = Over" "ph = Fresh \<longrightarrow> produced s = []"
    using assms(1) unfolding session_inv_def by blast
  show ?thesis
  proof (rule yields_and_then [OF assms(2) [OF sv]])
    fix srv
    let ?s' = "s\<lparr>server := srv, produced := produced s @ os\<rparr>"
    assume a: "serving E sp (snd (command_message args))
        ((base @ concat (map enc_message ?ms)) @ concat (map enc_message new)) b ph srv \<and>
      length (sent E (server s)) \<le> length (sent E srv)"
    then have sv': "serving E sp (snd (command_message args)) (base @ concat (map enc_message (?ms @ new))) b ph srv"
      by simp
    have "downstream E (?ms @ new) ?s'"
      by (rule server_moves [OF down sv sv' _ assms(3)]) (use a in simp_all)
    moreover have "upstream args ph b ?s'"
      by (rule upstream_same [OF up]) simp_all
    ultimately have "session_inv E sp base args ph ?s'"
      using sv' ex assms(4,5) by (intro session_invI [where ms = "?ms @ new" and b = b]) simp_all
    then show "yields (session_inv E sp base args ph) (Inr ?s')"
      by simp
  qed
qed

lemma produces_step:
  assumes "lossless E" and "session_inv E sp base args ph s"
  shows "yields (session_inv E sp base args ph) (session_step E C args (Produces is_out d) s)"
proof (cases "\<exists>p. process (server s) = Some p \<and> running p \<and> reading p \<and> pipes_open p \<and>
    d \<noteq> [] \<and> length d \<le> chunk_max")
  case True
  then obtain ins where ph: "ph = Busy ins"
    using assms(2) by (cases ph) (auto simp: session_inv_def serving_def)
  have d: "framable d" "d \<noteq> []"
    using True by (auto simp: chunk_framable)
  have none: "exit_status s = None"
    using assms(2) by (auto simp: session_inv_def ph)
  have step: "session_step E C args (Produces is_out d) s =
      and_then (read_callback E is_out (int (length d)) d (server s))
        (\<lambda>srv. Inr (s\<lparr>server := srv, produced := produced s @ [(is_out, d)]\<rparr>))"
    using True by (auto simp: session_step_def)
  show ?thesis
    unfolding step
  proof (rule server_step_inv [OF assms(2), where new = "[(out_type is_out, d)]"])
    show "yields (\<lambda>srv. serving E sp c (out @ concat (map enc_message [(out_type is_out, d)])) b ph srv \<and>
        length (sent E (server s)) \<le> length (sent E srv))
      (read_callback E is_out (int (length d)) d (server s))"
      if "serving E sp c out b ph (server s)" for c out b
      using read_callback_serves [OF assms(1) that [unfolded ph] d] by (simp add: ph enc_message_Pair)
    show "\<forall>m\<in>set [(out_type is_out, d)]. message_ok m"
      using d by (simp add: message_ok_def)
    show "answered (began ph) (produced s @ [(is_out, d)]) (exit_status s) =
        answered (began ph) (produced s) (exit_status s) @ [(out_type is_out, d)]"
      by (simp add: ph none answered_snoc)
  qed (simp add: ph)
next
  case False
  then have "session_step E C args (Produces is_out d) s = Inr s"
    by (auto simp: session_step_def split: option.split)
  with assms(2) show ?thesis
    by simp
qed

lemma library_step:
  assumes "lossless E" and "session_inv E sp base args ph s" and "ev \<in> {Congests, Drains, Polls}"
  shows "yields (session_inv E sp base args ph) (session_step E C args ev s)"
proof -
  have up: "channel (server s)"
    using assms(2) by (auto simp: session_inv_def serving_def)
  let ?m = "if ev = Drains then onBufferEmpty E (server s)
    else if ev = Congests then onBufferFull (server s) else update_events E (server s)"
  have "session_step E C args ev s =
      and_then ?m (\<lambda>srv. Inr (s\<lparr>server := srv, produced := produced s @ []\<rparr>))"
    using assms(3) up by (auto simp: session_step_def)
  moreover have "yields (session_inv E sp base args ph)
      (and_then ?m (\<lambda>srv. Inr (s\<lparr>server := srv, produced := produced s @ []\<rparr>)))"
  proof (rule server_step_inv [OF assms(2), where new = "[]"])
    show "yields (\<lambda>srv. serving E sp c (out @ concat (map enc_message [])) b ph srv \<and>
        length (sent E (server s)) \<le> length (sent E srv)) ?m"
      if "serving E sp c out b ph (server s)" for c out b
      using drained_serves [OF assms(1) that] full_serves [OF that] polled_serves [OF that]
      by (auto elim: yields_mono)
  qed simp_all
  ultimately show ?thesis
    by simp
qed

lemma exits_step:
  assumes "dependable E" and "session_inv E sp base args ph s" and "sig \<noteq> SIGTERM"
    and "framable (exit_text status)"
  shows "yields (\<lambda>s'. session_inv E sp base args ph s' \<or> session_inv E sp base args Over s')
    (session_step E C args (Finishes status sig) s)"
proof (cases "\<exists>p. process (server s) = Some p \<and> running p")
  case True
  then obtain ins where ph: "ph = Busy ins"
    using assms(2) by (cases ph) (auto simp: session_inv_def serving_def)
  let ?c = "snd (command_message args)" and ?ms = "answered True (produced s) None"
  let ?new = "[(ENDOFFILE, exit_text status)]"
  obtain b where sv: "serving E sp ?c (base @ concat (map enc_message ?ms)) b (Busy ins) (server s)"
    and up: "upstream args (Busy ins) b s" and down: "downstream E ?ms s"
    using assms(2) by (auto simp: session_inv_def ph)
  have step: "session_step E C args (Finishes status sig) s =
      and_then (process_exited E status sig (server s)) (\<lambda>srv. Inr (s\<lparr>server := srv, exit_status := Some status\<rparr>))"
    using True by (auto simp: session_step_def)
  show ?thesis
    unfolding step
  proof (rule yields_and_then [OF exit_serves [OF assms(1) sv assms(3,4)]])
    fix srv
    let ?s' = "s\<lparr>server := srv, exit_status := Some status\<rparr>"
    assume a: "serving E sp ?c ((base @ concat (map enc_message ?ms)) @ frame ENDOFFILE (exit_text status)) b Over srv \<and>
      length (sent E (server s)) \<le> length (sent E srv)"
    then have sv': "serving E sp ?c (base @ concat (map enc_message (?ms @ ?new))) b Over srv"
      by (simp add: enc_message_Pair)
    have "downstream E (?ms @ ?new) ?s'"
      by (rule server_moves [OF down sv sv']) (use a assms(4) in \<open>simp_all add: message_ok_def\<close>)
    moreover have "upstream args Over b ?s'"
      using up by (simp add: upstream_def uplink_def)
    ultimately have "session_inv E sp base args Over ?s'"
      using sv' by (intro session_invI [where ms = "?ms @ ?new" and b = b]) (simp_all add: answered_snoc)
    then show "yields (\<lambda>s'. session_inv E sp base args ph s' \<or> session_inv E sp base args Over s') (Inr ?s')"
      by simp
  qed
next
  case False
  then have "session_step E C args (Finishes status sig) s = Inr s"
    by (auto simp: session_step_def split: option.split)
  with assms(2) show ?thesis
    by simp
qed

text \<open>The next bytes of the client reach the server.\<close>

lemma uplink_step:
  assumes "lossless E" and "can_spawn E" and "session_inv E sp base args ph s" and "ph \<noteq> Over"
    and "g \<noteq> mt_byte ENDOFFILE" and "framable (snd (command_message args))"
  shows "yields (\<lambda>s'. \<exists>ph'. ph' \<noteq> Over \<and> session_inv E sp base args ph' s') (session_step E C args (Uplink g k) s)"
proof -
  let ?c = "snd (command_message args)" and ?ms = "answered (began ph) (produced s) None"
  obtain b ls where sv: "serving E sp ?c (base @ concat (map enc_message ?ms)) b ph (server s)"
    and w: "writes (remote s) = map enc_message (asked args (typed s))"
    and ts: "\<forall>d\<in>set (typed s). framable d \<and> d \<noteq> []"
    and ls: "unread args (typed s) ph ls" "b @ drop (up_read s) (uplink s) = concat (map enc_message ls)"
    and le: "up_read s \<le> length (uplink s)" and down: "downstream E ?ms s"
    and ex: "exit_status s = None" "ph = Fresh \<longrightarrow> produced s = []"
    using assms(3,4) by (auto simp: session_inv_def upstream_def)
  define data where "data = take k (drop (up_read s) (uplink s))"
  define rest where "rest = drop (up_read s + length data) (uplink s)"
  have split: "(b @ data) @ rest = concat (map enc_message ls)"
    using ls(2) drop_take_drop [OF le, of "[]" k] by (simp add: data_def rest_def)
  have le': "up_read s + length data \<le> length (uplink s)"
    using le by (simp add: data_def)
  let ?next = "\<lambda>srv. s\<lparr>server := srv, up_read := up_read s + length data\<rparr>"
  have up: "upstream args ph' b' (?next srv)"
    if "unread args (typed s) ph' ls'" "b' @ rest = concat (map enc_message ls')" for ph' b' ls' srv
    using w ts le' that by (auto simp: upstream_def uplink_def rest_def)
  have inv: "session_inv E sp base args ph' (?next srv)"
    if "serving E sp ?c (base @ concat (map enc_message (?ms @ new))) b' ph' srv"
      and "length (sent E (server s)) \<le> length (sent E srv)"
      and "unread args (typed s) ph' ls'" "b' @ rest = concat (map enc_message ls')"
      and "answered (began ph') (produced s) None = ?ms @ new" "\<forall>m\<in>set new. message_ok m"
      and "ph' \<noteq> Over" "ph' = Fresh \<longrightarrow> produced s = []" for ph' b' ls' new srv
    using server_moves [OF down sv that(1,2,6), of "?next srv"] up [OF that(3,4)] that ex
    by (intro session_invI [where ms = "?ms @ new" and b = b']) simp_all
  have step: "session_step E C args (Uplink g k) s =
      and_then (onDataReceived E g data (server s)) (\<lambda>srv. Inr (?next srv))"
    using sv by (simp add: session_step_def data_def serving_def)
  show ?thesis
  proof (cases ph)
    case Fresh
    have ls': "ls = (message_type.NONE, ?c) # map (Pair STDIN) (typed s)"
      using ls(1) by (simp add: Fresh asked_def command_message_def)
    have ok: "\<forall>(t, m)\<in>set ((message_type.NONE, ?c) # map (Pair STDIN) (typed s)). framable m \<and> m \<noteq> []"
      using ts assms(6) by (auto simp: command_message_def)
    show ?thesis
      unfolding step
    proof (rule yields_and_then [OF piece_serves_fresh [OF assms(1,2) sv [unfolded Fresh] split [unfolded ls'] ok]],
        elim conjE disjE exE)
      fix srv
      assume "serving E sp ?c (base @ concat (map enc_message (answered (began Fresh) (produced s) None))) (b @ data) Fresh srv"
        and "length (sent E (server s)) \<le> length (sent E srv)"
      then have "session_inv E sp base args Fresh (?next srv)"
        using split ls(1) ex by (intro inv [where new = "[]" and ls' = ls and b' = "b @ data"]) (simp_all add: Fresh)
      then show "yields (\<lambda>s'. \<exists>ph'. ph' \<noteq> Over \<and> session_inv E sp base args ph' s') (Inr (?next srv))"
        by auto
    next
      fix srv b'
      assume "b @ data = frame message_type.NONE ?c @ b'"
        and "serving E sp ?c ((base @ concat (map enc_message (answered (began Fresh) (produced s) None))) @ frame STARTED [])
          b' (Busy []) srv"
        and "length (sent E (server s)) \<le> length (sent E srv)"
      then have "session_inv E sp base args (Busy []) (?next srv)"
        using split ex by (intro inv [where new = "[(STARTED, [])]" and ls' = "map (Pair STDIN) (typed s)"])
          (simp_all add: Fresh ls' answered_def enc_message_Pair message_ok_def framable_def)
      then show "yields (\<lambda>s'. \<exists>ph'. ph' \<noteq> Over \<and> session_inv E sp base args ph' s') (Inr (?next srv))"
        by auto
    qed
  next
    case (Busy ins)
    then obtain rs where rs: "typed s = ins @ rs" "ls = map (Pair STDIN) rs"
      using ls(1) by auto
    have ok: "\<forall>m\<in>set rs. framable m \<and> m \<noteq> []"
      using ts rs(1) by simp
    show ?thesis
      unfolding step
    proof (rule yields_and_then [OF piece_serves_busy [OF sv [unfolded Busy] split [unfolded rs(2)] ok assms(5)]],
        elim conjE disjE exE)
      fix srv
      assume "serving E sp ?c (base @ concat (map enc_message (answered (began (Busy ins)) (produced s) None))) (b @ data) (Busy ins) srv"
        and "sent E srv = sent E (server s)"
      then have "session_inv E sp base args (Busy ins) (?next srv)"
        using split ls(1) by (intro inv [where new = "[]" and ls' = ls and b' = "b @ data"]) (simp_all add: Busy)
      then show "yields (\<lambda>s'. \<exists>ph'. ph' \<noteq> Over \<and> session_inv E sp base args ph' s') (Inr (?next srv))"
        by auto
    next
      fix srv m ms' b'
      assume "rs = m # ms'" and "b @ data = frame STDIN m @ b'"
        and "serving E sp ?c (base @ concat (map enc_message (answered (began (Busy ins)) (produced s) None))) b' (Busy (ins @ [m])) srv"
        and "sent E srv = sent E (server s)"
      then have "session_inv E sp base args (Busy (ins @ [m])) (?next srv)"
        using split rs by (intro inv [where new = "[]" and ls' = "map (Pair STDIN) ms'"])
          (simp_all add: Busy enc_message_Pair)
      then show "yields (\<lambda>s'. \<exists>ph'. ph' \<noteq> Over \<and> session_inv E sp base args ph' s') (Inr (?next srv))"
        by auto
    qed
  qed (use assms(4) in simp)
qed

text \<open>The user types.\<close>

lemma types_step:
  assumes "session_inv E sp base args ph s" and "\<forall>h b. 0 < channel_send C h b"
  shows "yields (session_inv E sp base args ph) (session_step E C args (Types d) s)"
proof (cases "at_input (remote s) \<and> d \<noteq> [] \<and> length d \<le> chunk_max")
  case True
  have d: "framable d" "d \<noteq> []"
    using True by (simp_all add: chunk_framable)
  let ?r = "client_step C args (Round 1 True (int (length d)) d) (remote s)"
  let ?s' = "s\<lparr>remote := ?r, typed := typed s @ [d]\<rparr>"
  have at: "main_at (remote s) = Polling" "client_running (callbacks (remote s))" "stdin_open (remote s)"
    using True by (simp_all add: at_input_def)
  have msg: "message_bytes (stdin_message d) = enc_message (STDIN, d)"
    using d by (simp add: stdin_message_def writeData_frame enc_message_Pair)
  have sent: "snd (write_message C (stdin_message d) t)" for t
    using assms(2) by (simp add: write_message_def writeData_def Let_def case_prod_beta not_le)
  have r: "callbacks ?r = callbacks (remote s)" "main_at ?r = Polling"
    "writes ?r = writes (remote s) @ [enc_message (STDIN, d)]"
    using at sent d by (simp_all add: client_step_def client_round_def case_prod_beta Let_def msg)
  have step: "session_step E C args (Types d) s = Inr ?s'"
    using True by (simp add: session_step_def)
  let ?ms = "answered (began ph) (produced s) (exit_status s)"
  obtain b ls where sv: "serving E sp (snd (command_message args)) (base @ concat (map enc_message ?ms)) b ph (server s)"
    and w: "writes (remote s) = map enc_message (asked args (typed s))"
    and ts: "\<forall>d\<in>set (typed s). framable d \<and> d \<noteq> []" and ls: "unread args (typed s) ph ls"
      "ph = Over \<or> up_read s \<le> length (uplink s) \<and> b @ drop (up_read s) (uplink s) = concat (map enc_message ls)"
    and down: "downstream E ?ms s"
    and ex: "exit_status s \<noteq> None \<longleftrightarrow> ph = Over" "ph = Fresh \<longrightarrow> produced s = []"
    using assms(1) unfolding session_inv_def upstream_def by blast
  have asked: "asked args (typed s @ [d]) = asked args (typed s) @ [(STDIN, d)]"
    by (simp add: asked_def)
  have "unread args (typed s @ [d]) ph (ls @ [(STDIN, d)])"
    using ls(1) by (cases ph) (auto simp: asked)
  moreover have "uplink ?s' = uplink s @ enc_message (STDIN, d)"
    by (simp add: uplink_def r(3))
  ultimately have "\<exists>ls. unread args (typed ?s') ph ls \<and>
      (ph = Over \<or> up_read ?s' \<le> length (uplink ?s') \<and> b @ drop (up_read ?s') (uplink ?s') = concat (map enc_message ls))"
    using ls(2) by (intro exI [of _ "ls @ [(STDIN, d)]"]) (auto simp: append_assoc [symmetric] simp del: append_assoc)
  then have "upstream args ph b ?s'"
    using w ts d by (simp add: upstream_def r(3) asked)
  moreover have "downstream E ?ms ?s'"
    using down at r by (simp add: downstream_def downlink_def del: drop_append)
  ultimately have "session_inv E sp base args ph ?s'"
    using sv ex by (intro session_invI [where ms = ?ms and b = b]) simp_all
  then show ?thesis
    by (simp add: step)
next
  case False
  then have "session_step E C args (Types d) s = Inr s"
    by (auto simp: session_step_def)
  with assms(1) show ?thesis
    by simp
qed

lemma client_side_step:
  assumes "session_inv E sp base args ph s" and "ev \<in> insert Idle (range Downlink)"
  shows "yields (session_inv E sp base args ph) (session_step E C args ev s)"
proof -
  let ?ms = "answered (began ph) (produced s) (exit_status s)"
  obtain b where sv: "serving E sp (snd (command_message args)) (base @ concat (map enc_message ?ms)) b ph (server s)"
    and up: "upstream args ph b s" and down: "downstream E ?ms s"
    and ex: "exit_status s \<noteq> None \<longleftrightarrow> ph = Over" "ph = Fresh \<longrightarrow> produced s = []"
    using assms(1) unfolding session_inv_def by blast
  have "yields (\<lambda>s'. downstream E ?ms s' \<and> server s' = server s \<and>
      writes (remote s') = writes (remote s) \<and> typed s' = typed s \<and> produced s' = produced s \<and>
      exit_status s' = exit_status s \<and> up_read s' = up_read s) (session_step E C args ev s)"
    using assms(2) downlink_step [OF down] yields_mono [OF idle_step [OF down]] by auto
  then show ?thesis
  proof (rule yields_mono)
    fix s'
    assume s': "downstream E ?ms s' \<and> server s' = server s \<and>
      writes (remote s') = writes (remote s) \<and> typed s' = typed s \<and> produced s' = produced s \<and>
      exit_status s' = exit_status s \<and> up_read s' = up_read s"
    then have "upstream args ph b s'"
      using up by (auto simp: upstream_def uplink_def)
    with s' sv ex show "session_inv E sp base args ph s'"
      by (intro session_invI [where ms = ?ms and b = b]) simp_all
  qed
qed

subsection \<open>The server of a session\<close>

text \<open>The server of a session only makes steps of the server.\<close>

lemma session_step_server:
  assumes "session_step E C args ev s = Inr s'"
  shows "server s' = server s \<or> server_step E (server s) (server s')"
  using assms
  by (cases ev) (auto simp: session_step_def Let_def outcome_simps split: if_splits option.splits
      intro: server_step.intros)

lemma session_run_server_wf:
  assumes "session_run E C args evs s = Inr s'" and "server_wf (server s)"
  shows "server_wf (server s')"
  using assms
proof (induction evs arbitrary: s)
  case (Cons ev evs)
  then obtain s1 where s1: "session_step E C args ev s = Inr s1" "session_run E C args evs s1 = Inr s'"
    by (auto simp: outcome_simps)
  with session_step_server [OF s1(1)] Cons.prems(2) have "server_wf (server s1)"
    using server_step_wf by metis
  with Cons.IH [OF s1(2)] show ?case .
qed simp

subsection \<open>Whole sessions\<close>

lemma quiet_step:
  assumes "lossless E" and "\<forall>h b. 0 < channel_send C h b" and "session_inv E sp base args ph s"
    and "\<not> is_uplink ev" and "\<forall>status sig. ev \<noteq> Finishes status sig"
  shows "yields (session_inv E sp base args ph) (session_step E C args ev s)"
  using assms(4,5) types_step [OF assms(3,2)] produces_step [OF assms(1,3)] library_step [OF assms(1,3)]
    client_side_step [OF assms(3)]
  by (cases ev) auto

lemma session_step_inv:
  assumes "dependable E" and "can_spawn E" and "\<forall>h b. 0 < channel_send C h b"
    and "framable (snd (command_message args))"
    and "courteous (ev # evs)" and "session_inv E sp base args ph s"
    and "ph = Over \<longrightarrow> \<not> list_ex is_uplink (ev # evs)"
  shows "yields (\<lambda>s'. \<exists>ph'. session_inv E sp base args ph' s' \<and> (ph' = Over \<longrightarrow> \<not> list_ex is_uplink evs))
    (session_step E C args ev s)"
proof -
  consider g k where "ev = Uplink g k" | status sig where "ev = Finishes status sig"
    | "\<not> is_uplink ev" "\<forall>status sig. ev \<noteq> Finishes status sig"
    by (cases ev) auto
  then show ?thesis
  proof cases
    case 1
    then have "ph \<noteq> Over" "g \<noteq> mt_byte ENDOFFILE"
      using assms(5,7) by auto
    from uplink_step [OF dependableD(1) [OF assms(1)] assms(2,6) this assms(4)] show ?thesis
      unfolding 1 by (rule yields_mono) auto
  next
    case 2
    then have x: "sig \<noteq> SIGTERM" "framable (exit_text status)" "\<not> list_ex is_uplink evs"
      using assms(5) by simp_all
    from exits_step [OF assms(1,6) x(1,2)] show ?thesis
      unfolding 2 by (rule yields_mono) (use x(3) in auto)
  next
    case 3
    from quiet_step [OF dependableD(1) [OF assms(1)] assms(3,6) this] show ?thesis
      by (rule yields_mono) (use assms(7) in auto)
  qed
qed

lemma courteous_tl: "courteous (ev # evs) \<Longrightarrow> courteous evs"
  by (cases ev) simp_all

lemma session_run_inv:
  assumes "dependable E" and "can_spawn E" and "\<forall>h b. 0 < channel_send C h b"
    and "framable (snd (command_message args))"
    and "courteous evs" and "session_inv E sp base args ph s" and "ph = Over \<longrightarrow> \<not> list_ex is_uplink evs"
  shows "yields (\<lambda>s'. \<exists>ph'. session_inv E sp base args ph' s') (session_run E C args evs s)"
  using assms(5-)
proof (induction evs arbitrary: ph s)
  case (Cons ev evs)
  show ?case
    unfolding session_run.simps
    using session_step_inv [OF assms(1-4) Cons.prems]
    by (rule yields_and_then) (auto intro: Cons.IH [OF courteous_tl [OF Cons.prems(1)]])
qed auto

lemma client_connected:
  assumes "args \<noteq> []" and "bind_error C = 0" and "0 \<le> connect_result C"
    and "\<forall>h b. 0 < channel_send C h b" and "framable (snd (command_message args))"
  shows "client_main C type0 args [StartsWaiting, ConnectionUp] =
    \<lparr>main_at = Polling, callbacks = RemoteexecCallback_new type0, stdin_open = True,
     writes = [enc_message (command_message args)], hung_up = False\<rparr>"
proof -
  have "fst (writeData send (snd (command_message args)) (fst (command_message args))) =
      enc_message (command_message args)" for send
    using assms(5) by (simp add: writeData_frame enc_message_def)
  moreover have "snd (writeData (channel_send C h) line ty)" for h line ty
    using assms(4) by (simp add: writeData_def Let_def not_le)
  ultimately show ?thesis
    using assms(1-3)
    by (simp add: client_main_def client_main_start_def client_step_def client_wakes_def
        write_message_def case_prod_beta Let_def)
qed

lemma session_new_inv:
  assumes "args \<noteq> []" and "bind_error C = 0" and "0 \<le> connect_result C"
    and "\<forall>h b. 0 < channel_send C h b" and "framable (snd (command_message args))"
    and "channel srv" and "process srv = None" and "buf srv = []" and "expected srv = 0" and "outbuf srv = []"
  shows "session_inv E (spawned srv) (sent E srv) args Fresh (session_new E C type0 args srv)"
proof -
  let ?s = "session_new E C type0 args srv"
  have r: "remote ?s = \<lparr>main_at = Polling, callbacks = RemoteexecCallback_new type0, stdin_open = True,
     writes = [enc_message (command_message args)], hung_up = False\<rparr>"
    using client_connected [OF assms(1-5)] by (simp add: session_new_def)
  have "upstream args Fresh [] ?s"
    unfolding upstream_def uplink_def r by (simp add: asked_def session_new_def)
  moreover have "hearing [] [] (RemoteexecCallback_new type0)"
    by (simp add: hearing_def client_holds_def RemoteexecCallback_new_def)
  then have "downstream E [] ?s"
    using assms(10) unfolding downstream_def downlink_def r
    by (simp add: session_new_def running_iff_def heard_exit_def RemoteexecCallback_new_def)
  ultimately show ?thesis
    using assms(6-10)
    by (intro session_invI [where ms = "[]" and b = "[]"]) (simp_all add: serving_def session_new_def answered_def)
qed

lemma answered_notes:
  "map note_of_message (answered started os x) =
     (if started then [CommandReceived] else []) @ map (\<lambda>(_, d). Output d) os @
     (case x of None \<Rightarrow> [] | Some status \<Rightarrow> [Completed (exit_text status)])"
  by (auto simp: answered_def note_of_message_def note_of_def out_type_def split: option.split if_splits)

lemma session_from_new:
  assumes "dependable E" and "can_spawn E" and "\<forall>h b. 0 < channel_send C h b"
    and "bind_error C = 0" and "0 \<le> connect_result C" and "args \<noteq> []"
    and "framable (snd (command_message args))"
    and "channel srv" and "process srv = None" and "buf srv = []" and "expected srv = 0" and "outbuf srv = []"
    and "courteous evs"
  shows "yields (\<lambda>s. \<exists>ph. session_inv E (spawned srv) (sent E srv) args ph s)
    (session_run E C args evs (session_new E C type0 args srv))"
  by (rule session_run_inv [OF assms(1-3,7,13) session_new_inv [OF assms(6,4,5,3,7-12)]]) simp

subsection \<open>The end of a session\<close>

lemma session_run_append:
  "session_run E C args (evs @ evs') s = and_then (session_run E C args evs s) (session_run E C args evs')"
proof (induction evs arbitrary: s)
  case (Cons ev evs)
  have "session_run E C args (evs @ evs') = (\<lambda>s. and_then (session_run E C args evs s) (session_run E C args evs'))"
    by (rule ext) (rule Cons.IH)
  then show ?case
    by (simp add: and_then_assoc)
qed simp

text \<open>
  What the client will have reported in the end.
\<close>

definition reports :: "(bool \<times> string) list \<Rightarrow> int option \<Rightarrow> client_note list" where
  "reports os x = CommandReceived # map (\<lambda>(_, d). Output d) os @
     (case x of None \<Rightarrow> [] | Some status \<Rightarrow> [Completed (exit_text status)])"

lemma answered_reports:
  "map note_of_message (answered True os x) = reports os x"
  "map note_of_message (answered st os (Some status)) = (if st then [CommandReceived] else []) @
    map (\<lambda>(_, d). Output d) os @ [Completed (exit_text status)]"
  by (simp_all add: answered_notes reports_def)

text \<open>Every call in which the library's buffer is empty sends what is held, or the library refuses it.\<close>

definition undrained :: "nat \<Rightarrow> s3tp_server \<Rightarrow> nat" where
  "undrained n srv = (if outbuf srv = [] then 0 else Suc (n - length (trace srv)))"

lemma drain_progress:
  assumes "lossless E" and "accepts_from n E" and "channel srv"
  shows "yields (\<lambda>s. undrained n s \<le> undrained n srv - 1) (onBufferEmpty E srv)"
proof -
  let ?s = "srv\<lparr>process := map_option start_output (process srv)\<rparr>"
  let ?r = "send_result E (trace srv) (outbuf srv)"
  have "?r = ERROR_BUFFER_FULL E \<or> \<not> ?r < 0"
    using assms(1) by (auto simp: lossless_def not_less)
  moreover have "length (trace srv) < n" if "?r = ERROR_BUFFER_FULL E"
    using assms(2) that by (auto simp: accepts_from_def not_le [symmetric])
  ultimately show ?thesis
    using assms(3)
    by (auto simp: onBufferEmpty_def send_buf_def Let_def server_simps disconnect_def undrained_def
        stop_process_output_def)
qed

lemma drains_all:
  assumes "lossless E" and "accepts_from n E" and "session_inv E sp base args ph s"
  shows "yields (\<lambda>s'. session_inv E sp base args ph s' \<and> undrained n (server s') \<le> undrained n (server s) - k \<and>
      remote s' = remote s \<and> down_read s' = down_read s \<and> produced s' = produced s \<and> exit_status s' = exit_status s)
    (session_run E C args (replicate k Drains) s)"
  using assms(3)
proof (induction k arbitrary: s)
  case (Suc k)
  have up: "channel (server s)"
    using Suc.prems by (auto simp: session_inv_def serving_def)
  have "yields (session_inv E sp base args ph) (session_step E C args Drains s)"
    by (rule library_step [OF assms(1) Suc.prems]) simp
  moreover have "session_step E C args Drains s =
      and_then (onBufferEmpty E (server s)) (\<lambda>srv. Inr (s\<lparr>server := srv\<rparr>))"
    using up by (simp add: session_step_def)
  ultimately obtain srv where srv: "session_step E C args Drains s = Inr (s\<lparr>server := srv\<rparr>)"
    "session_inv E sp base args ph (s\<lparr>server := srv\<rparr>)" "undrained n srv \<le> undrained n (server s) - 1"
    using drain_progress [OF assms(1,2) up] by (auto simp: yields_iff)
  show ?case
    unfolding replicate.simps session_run.simps srv(1) and_then_Inr
    by (rule yields_mono [OF Suc.IH [OF srv(2)]]) (use srv(3) in auto)
qed simp

text \<open>What the invariant says at the end of the two streams.\<close>

lemma session_inv_reports:
  assumes "session_inv E sp base args ph s"
  shows "prefix (heard (callbacks (remote s))) (reports (produced s) (exit_status s))"
    and "main_at (remote s) = Ended 0 \<Longrightarrow>
      exit_status s \<noteq> None \<and> heard (callbacks (remote s)) = reports (produced s) (exit_status s)"
proof -
  let ?ms = "answered (began ph) (produced s) (exit_status s)" and ?c = "callbacks (remote s)"
  let ?todo = "drop (down_read s) (downlink E s @ outbuf (server s))"
  have down: "downstream E ?ms s" and ex: "exit_status s \<noteq> None \<longleftrightarrow> ph = Over" "ph = Fresh \<longrightarrow> produced s = []"
    using assms by (auto simp: session_inv_def)
  then have h: "hearing ?ms ?todo ?c" and ok: "\<forall>m\<in>set ?ms. message_ok m"
    by (simp_all add: downstream_def del: drop_append)
  have ms: "ph \<noteq> Fresh \<Longrightarrow> map note_of_message ?ms = reports (produced s) (exit_status s)"
    by (cases ph) (simp_all add: answered_reports)
  show "prefix (heard ?c) (reports (produced s) (exit_status s))"
  proof (cases "ph = Fresh")
    case True
    with hearing_prefix [OF h] ex show ?thesis
      by (auto simp: answered_def)
  next
    case False
    with hearing_prefix [OF h] ms show ?thesis
      by simp
  qed
  show "exit_status s \<noteq> None \<and> heard ?c = reports (produced s) (exit_status s)" if "main_at (remote s) = Ended 0"
  proof -
    have "heard_exit ?c"
      using down that by (auto simp: downstream_def)
    from hearing_exit [OF h this] have "?todo = []" "exit_status s \<noteq> None"
      by blast+
    moreover from this have "ph \<noteq> Fresh"
      using ex by auto
    ultimately show ?thesis
      using hearing_end [OF _ ok, of ?c] h ms by simp
  qed
qed

text \<open>
  What a session promises: at most the user's command has been started, behind the commands
  \<open>sp\<close> of before; the process has got a prefix of what the user typed; the client has
  reported a prefix of the start, the output in order and the exit, and it has ended only
  with status 0, after the exit, when it has reported all of this.
\<close>

definition streams_kept :: "string list \<Rightarrow> string list \<Rightarrow> session \<Rightarrow> bool" where
  "streams_kept sp args s \<longleftrightarrow>
     (spawned (server s) = sp \<or> spawned (server s) = sp @ [join_args args @ [CHR 0x0A]]) \<and>
     (\<forall>p. process (server s) = Some p \<longrightarrow>
        cmd p = join_args args @ [CHR 0x0A] \<and> prefix (written p) (typed s)) \<and>
     prefix (heard (callbacks (remote s))) (reports (produced s) (exit_status s)) \<and>
     (main_at (remote s) = Polling \<or>
      main_at (remote s) = Ended 0 \<and> exit_status s \<noteq> None \<and>
        heard (callbacks (remote s)) = reports (produced s) (exit_status s))"

lemma session_inv_streams:
  assumes "session_inv E sp base args ph s"
  shows "streams_kept sp args s"
proof -
  obtain b out where sv: "serving E sp (join_args args @ [CHR 0x0A]) out b ph (server s)"
    and up: "upstream args ph b s" and "downstream E (answered (began ph) (produced s) (exit_status s)) s"
    using assms by (auto simp: session_inv_def command_message_def)
  then have "main_at (remote s) = Polling \<or> main_at (remote s) = Ended 0"
    by (auto simp: downstream_def)
  moreover have "cmd p = join_args args @ [CHR 0x0A] \<and> prefix (written p) (typed s)"
    if "process (server s) = Some p" for p
    using that sv up by (cases ph) (auto simp: serving_def upstream_def)
  ultimately show ?thesis
    using session_inv_reports [OF assms] sv by (auto simp: streams_kept_def serving_def)
qed

text \<open>When the client has received everything, its next round is the last one.\<close>

lemma session_last_round:
  assumes "session_inv E sp base args ph s" and "outbuf (server s) = []" and "exit_status s \<noteq> None"
    and "length (sent E (server s)) \<le> down_read s + k"
  shows "yields (\<lambda>s'. main_at (remote s') = Ended 0 \<and>
      heard (callbacks (remote s')) = reports (produced s) (exit_status s))
    (session_run E C args [Downlink k, Idle] s)"
proof -
  let ?ms = "answered (began ph) (produced s) (exit_status s)"
  have down: "downstream E ?ms s" and ph: "ph = Over"
    using assms(1,3) by (auto simp: session_inv_def)
  obtain st where st: "exit_status s = Some st"
    using assms(3) by blast
  obtain s1 where s1: "session_step E C args (Downlink k) s = Inr s1" "downstream E ?ms s1" "server s1 = server s"
    using downlink_step [OF down, of C args k] by (auto simp: yields_iff)
  have "down_read s1 = down_read s + length (take k (drop (down_read s) (downlink E s)))"
    using s1(1) by (auto simp: session_step_def Let_def)
  then have over: "drop (down_read s1) (downlink E s1 @ outbuf (server s1)) = []"
    using assms(2,4) down by (simp add: s1(3) downlink_def downstream_def)
  have heard: "heard (callbacks (remote s1)) = reports (produced s) (exit_status s)"
    using hearing_end [of ?ms "callbacks (remote s1)"] s1(2) over
    by (simp add: downstream_def ph answered_reports)
  then have "heard_exit (callbacks (remote s1))"
    by (auto simp: heard_exit_def reports_def st)
  with idle_step [OF s1(2), of C args] heard show ?thesis
    by (auto simp: s1(1) yields_iff)
qed

subsection \<open>Properties\<close>

text \<open>
  C8: a session delivers both streams. Assume that the library never fails to send, that
  processes can be started and the exit callback survives its own destruction, that the client
  connects with a command that fits in a frame, and that the events are courteous: nothing
  arrives at the server after the exit, the command does not exit by SIGTERM, its exit code fits
  in a frame, and the uninitialised type is never \<open>ENDOFFILE\<close>. Then whatever the client program and an idle server do with each other, in any
  order, whatever parts of the streams arrive and whenever the library is full: nothing fails; at most the user's command is started, its input is a
  prefix of what the user typed, the client reports a prefix of the start, the output in
  order and the exit; and the client ends only with status 0, after the exit, when it has
  reported all of this.
\<close>

theorem session_streams:
  assumes "dependable E" and "can_spawn E" and "\<forall>h b. 0 < channel_send C h b"
    and "bind_error C = 0" and "0 \<le> connect_result C" and "args \<noteq> []"
    and "framable (snd (command_message args))"
    and "channel srv" and "process srv = None" and "buf srv = []" and "expected srv = 0" and "outbuf srv = []"
    and "courteous evs"
  shows "yields (streams_kept (spawned srv) args)
    (session_run E C args evs (session_new E C type0 args srv))"
  by (rule yields_mono [OF session_from_new [OF assms]]) (blast dest: session_inv_streams)

text \<open>A session in which \<^verbatim>\<open>cat\<close> is started, writes to its output and exits.\<close>

definition cat_session :: "session_event list" where
  "cat_session = [Types ''x'', Uplink (CHR 0x00) 9, Produces True ''hi'', Finishes 0 0]"

lemma cat_session_runs:
  "yields (\<lambda>s. exit_status s = Some 0 \<and> produced s = [(True, ''hi'')] \<and> typed s = [''x''])
    (session_run link_env client_env0 [''cat''] cat_session
      (session_new link_env client_env0 (CHR 0x00) [''cat''] server1))"
proof -
  let ?c = "''cat'' @ [CHR 0x0A]" and ?data = "frame NONE (''cat'' @ [CHR 0x0A])"
  let ?s = "session_new link_env client_env0 (CHR 0x00) [''cat''] server1"
  have loss: "dependable link_env"
    by (simp add: dependable_def lossless_def)
  have new: "remote ?s = \<lparr>main_at = Polling, callbacks = RemoteexecCallback_new (CHR 0x00),
      stdin_open = True, writes = [?data], hung_up = False\<rparr>"
    by (simp add: session_new_def client_connected client_env0_def command_message_def framable_def enc_message_def)
  obtain r where types: "session_step link_env client_env0 [''cat''] (Types ''x'') ?s =
      Inr (?s\<lparr>remote := r, typed := [''x'']\<rparr>)" "writes r = [?data, frame STDIN ''x'']"
    using new
    by (simp add: session_step_def at_input_def chunk_max_def client_step_def client_round_def
        write_message_def client_env0_def Let_def case_prod_beta stdin_message_def writeData_frame
        framable_def RemoteexecCallback_new_def) (simp add: session_new_def writeData_def Let_def frame_def)
  have "yields (\<lambda>s. \<exists>p. serving link_env [] ?c (frame STARTED []) [] (Busy []) s \<and> process s = Some p \<and> reading p \<and> pipes_open p)
      (onDataReceived link_env (CHR 0x00) ?data server1)"
  proof -
    have "receive link_env [(CHR 0x00, ?data)] server1 = onDataReceived link_env (CHR 0x00) ?data server1"
      by (cases "onDataReceived link_env (CHR 0x00) ?data server1") simp_all
    moreover have "sent link_env server1 = []" "spawned server1 = []"
      by (simp_all add: sent_def spawned_def)
    ultimately show ?thesis
      using pieces_received [of link_env server1 ?c "[(CHR 0x00, ?data)]" NONE]
      by (auto simp: framable_def serving_def elim!: yields_mono)
  qed
  then obtain s1 p where s1: "onDataReceived link_env (CHR 0x00) ?data server1 = Inr s1"
    "serving link_env [] ?c (frame STARTED []) [] (Busy []) s1" "process s1 = Some p" "reading p" "pipes_open p"
    by (auto simp: yields_iff)
  have run: "running p"
    using s1(2,3) by (auto simp: serving_def)
  obtain s2 where s2: "read_callback link_env True 2 ''hi'' s1 = Inr s2"
    "serving link_env [] ?c (frame STARTED [] @ frame STDOUT ''hi'') [] (Busy []) s2"
    using read_callback_serves [OF dependableD(1) [OF loss] s1(2), of "''hi''" True]
    by (auto simp: yields_iff framable_def out_type_def)
  obtain q where q: "process s2 = Some q" "running q"
    using s2(2) by (auto simp: serving_def)
  have "framable (exit_text 0)"
    by (simp add: framable_def exit_text_def show_int_def show_nat.simps)
  then obtain s3 where s3: "process_exited link_env 0 0 s2 = Inr s3"
    using exit_serves [OF loss s2(2), of 0 0] by (auto simp: yields_iff SIGTERM_def)
  have "take 9 (concat (writes r)) = ?data"
    by (simp add: types(2) frame_def)
  then show ?thesis
    unfolding cat_session_def session_run.simps types(1) and_then_Inr
    using s1 s2 s3 q run
    by (simp add: session_step_def uplink_def session_new_def frame_def chunk_max_def)
qed

lemma cat_session_ok:
  "courteous cat_session" "dependable link_env" "\<forall>h b. 0 < channel_send client_env0 h b"
  "bind_error client_env0 = 0" "connect_result client_env0 = 0"
  "framable (snd (command_message [''cat'']))"
proof -
  have "CHR 0x00 \<noteq> mt_byte ENDOFFILE"
    by code_simp
  moreover have "framable (exit_text 0)"
    by (simp add: framable_def exit_text_def show_int_def show_nat.simps)
  ultimately show "courteous cat_session"
    by (simp add: cat_session_def SIGTERM_def)
qed (simp_all add: dependable_def lossless_def client_env0_def framable_def command_message_def)

lemma session_streams_witness:
  "yields (\<lambda>s. prefix (heard (callbacks (remote s))) (reports (produced s) (exit_status s)))
    (session_run link_env client_env0 [''cat''] cat_session
      (session_new link_env client_env0 (CHR 0x00) [''cat''] server1))"
  by (rule yields_mono [OF session_streams]) (simp_all add: cat_session_ok streams_kept_def)

text \<open>
  C9: a session ends. Assume a session as before: the library never fails to send, processes can
  be started, the exit callback survives its own destruction, and the events are courteous. When
  the command has exited in it and the library takes all data from its \<open>n\<close>-th call on, then after \<open>n + 1\<close> reports that its buffer is empty,
  when the bytes sent have arrived, the client has reported the start, all output in order
  and the exit, and its next round ends the program with status 0.
\<close>

theorem session_ends:
  assumes "dependable E" and "can_spawn E" and "\<forall>h b. 0 < channel_send C h b"
    and "bind_error C = 0" and "0 \<le> connect_result C" and "args \<noteq> []"
    and "framable (snd (command_message args))"
    and "channel srv" and "process srv = None" and "buf srv = []" and "expected srv = 0" and "outbuf srv = []"
    and "courteous evs"
    and "session_run E C args evs (session_new E C type0 args srv) = Inr s" and "exit_status s \<noteq> None"
    and "accepts_from n E" and "length (sent E (server s)) + length (outbuf (server s)) \<le> k"
  shows "yields (\<lambda>s'. main_at (remote s') = Ended 0 \<and>
      heard (callbacks (remote s')) = reports (produced s) (exit_status s))
    (session_run E C args (replicate (n + 1) Drains @ [Downlink k, Idle]) s)"
proof -
  obtain ph where inv: "session_inv E (spawned srv) (sent E srv) args ph s"
    using session_from_new [OF assms(1-13), of type0] by (auto simp: assms(14))
  show ?thesis
    unfolding session_run_append
  proof (rule yields_and_then [OF drains_all [OF dependableD(1) [OF assms(1)] assms(16) inv]], elim conjE)
    fix s1
    assume s1: "session_inv E (spawned srv) (sent E srv) args ph s1"
      "undrained n (server s1) \<le> undrained n (server s) - (n + 1)"
      "produced s1 = produced s" "exit_status s1 = exit_status s"
    then have empty: "outbuf (server s1) = []"
      by (simp add: undrained_def split: if_splits)
    have "sent E (server s1) @ outbuf (server s1) = sent E (server s) @ outbuf (server s)"
      using inv s1(1,3,4) by (auto simp: session_inv_def serving_def)
    with empty have "length (sent E (server s1)) \<le> k"
      using assms(17) by (metis append_Nil2 length_append)
    with session_last_round [OF s1(1) empty, of k C] s1(3,4) assms(15)
    show "yields (\<lambda>s'. main_at (remote s') = Ended 0 \<and>
        heard (callbacks (remote s')) = reports (produced s) (exit_status s))
      (session_run E C args [Downlink k, Idle] s1)"
      by simp
  qed
qed

lemma session_ends_witness:
  "\<exists>s. session_run link_env client_env0 [''cat''] cat_session
      (session_new link_env client_env0 (CHR 0x00) [''cat''] server1) = Inr s \<and>
    yields (\<lambda>s'. main_at (remote s') = Ended 0 \<and>
        heard (callbacks (remote s')) = [CommandReceived, Output ''hi'', Completed (exit_text 0)])
      (session_run link_env client_env0 [''cat'']
        (replicate (0 + 1) Drains @ [Downlink (length (sent link_env (server s)) + length (outbuf (server s))), Idle]) s)"
proof -
  obtain s where s: "session_run link_env client_env0 [''cat''] cat_session
      (session_new link_env client_env0 (CHR 0x00) [''cat''] server1) = Inr s"
    "exit_status s = Some 0" "produced s = [(True, ''hi'')]"
    using cat_session_runs by (auto simp: yields_iff)
  have "accepts_from 0 link_env"
    by (simp add: accepts_from_def)
  then have "yields (\<lambda>s'. main_at (remote s') = Ended 0 \<and>
        heard (callbacks (remote s')) = reports (produced s) (exit_status s))
      (session_run link_env client_env0 [''cat'']
        (replicate (0 + 1) Drains @ [Downlink (length (sent link_env (server s)) + length (outbuf (server s))), Idle]) s)"
    by (intro session_ends [OF cat_session_ok(2) _ cat_session_ok(3,4) _ _ cat_session_ok(6) _ _ _ _ _
        cat_session_ok(1) s(1)]) (simp_all add: cat_session_ok s(2))
  with s show ?thesis
    by (intro exI [of _ s]) (simp add: reports_def)
qed

end
