(* ===== verification/CtlMessage.thy ===== *)
theory CtlMessage
  imports Util
begin

text \<open>
  Control messages: \<^verbatim>\<open>src/event/ctlmessage.h\<close>, \<^verbatim>\<open>src/event/ctlmessage.cpp\<close>,
  \<^verbatim>\<open>src/event/req_shell_command.*\<close> and \<^verbatim>\<open>src/event/req_daemon_control.*\<close>. A message is an
  object of one of two classes; the fields of the base class stay beside the data of
  the class. The callback \<open>on_done\<close> is an opaque identifier of the function installed.
\<close>

subsection \<open>Data\<close>

datatype daemon_ctl_action_t = START | STOP | RESTART | STATUS

datatype ctl_class =
    ShellCommandReq string
  | DaemonControlReq daemon_ctl_action_t string

type_synonym callback = nat

record control_message =
  on_done :: "callback option"
  s3tp_flag :: bool
  ctl :: ctl_class

definition ControlMessage_new :: "ctl_class \<Rightarrow> control_message" where
  "ControlMessage_new c = \<lparr>on_done = None, s3tp_flag = False, ctl = c\<rparr>"

text \<open>The two constructors of \<open>ShellCommandReq\<close> and the one of \<open>DaemonControlReq\<close>.\<close>

definition ShellCommandReq_new :: "string \<Rightarrow> control_message" where
  "ShellCommandReq_new command = ControlMessage_new (ShellCommandReq command)"

definition ShellCommandReq_new_s3tp :: "string \<Rightarrow> bool \<Rightarrow> control_message" where
  "ShellCommandReq_new_s3tp command s3tp =
     (ControlMessage_new (ShellCommandReq command))\<lparr>s3tp_flag := s3tp\<rparr>"

definition DaemonControlReq_new :: "daemon_ctl_action_t \<Rightarrow> string \<Rightarrow> control_message" where
  "DaemonControlReq_new action service_name =
     ControlMessage_new (DaemonControlReq action service_name)"

definition is_s3tp :: "control_message \<Rightarrow> bool" where
  "is_s3tp m = s3tp_flag m"

definition call_on_complete :: "callback option \<Rightarrow> control_message \<Rightarrow> control_message" where
  "call_on_complete cb m = m\<lparr>on_done := cb\<rparr>"

text \<open>\<open>done\<close> calls the installed callback, if there is one, with the result text.\<close>

definition ctl_done :: "control_message \<Rightarrow> string \<Rightarrow> (callback \<times> string) list" where
  "ctl_done m result = (case on_done m of None \<Rightarrow> [] | Some cb \<Rightarrow> [(cb, result)])"

subsection \<open>The command a message stands for\<close>

text \<open>
  What \<open>update\<close> queues in the target state. The texts are concatenated exactly as the
  string stream of \<open>DaemonControlReq::update\<close> writes them.
\<close>

fun ctl_verb :: "daemon_ctl_action_t \<Rightarrow> string" where
  "ctl_verb START = ''start''"
| "ctl_verb STOP = ''stop''"
| "ctl_verb RESTART = ''restart''"
| "ctl_verb STATUS = ''status''"

fun ctl_command :: "ctl_class \<Rightarrow> string" where
  "ctl_command (ShellCommandReq cmd) = cmd"
| "ctl_command (DaemonControlReq action service_name) =
     ''sudo systemctl'' @ ctl_verb action @ service_name"

subsection \<open>Parsing\<close>

definition strip_newline :: "string \<Rightarrow> string" where
  "strip_newline s = (if s \<noteq> [] \<and> last s = CHR 0x0A then butlast s else s)"

definition ctl_parse :: "string \<Rightarrow> control_message option" where
  "ctl_parse msg =
     (if CHR 0x20 \<notin> set msg then None
      else
        let command_type = takeWhile (\<lambda>c. c \<noteq> CHR 0x20) msg;
            rest = strip_newline (tl (dropWhile (\<lambda>c. c \<noteq> CHR 0x20) msg))
        in if rest = [] then None
           else if command_type = ''exec'' then Some (ShellCommandReq_new rest)
           else if command_type = ''status'' then Some (DaemonControlReq_new STATUS rest)
           else if command_type = ''start'' then Some (DaemonControlReq_new START rest)
           else if command_type = ''stop'' then Some (DaemonControlReq_new STOP rest)
           else if command_type = ''restart'' then Some (DaemonControlReq_new RESTART rest)
           else None)"

text \<open>A printer for the message grammar, used to state that parsing inverts it.\<close>

fun ctl_print :: "ctl_class \<Rightarrow> string" where
  "ctl_print (ShellCommandReq cmd) = ''exec '' @ cmd"
| "ctl_print (DaemonControlReq action service_name) = ctl_verb action @ '' '' @ service_name"

fun ctl_argument :: "ctl_class \<Rightarrow> string" where
  "ctl_argument (ShellCommandReq cmd) = cmd"
| "ctl_argument (DaemonControlReq action service_name) = service_name"

lemma strip_newline_append [simp]: "strip_newline (s @ [CHR 0x0A]) = s"
  by (simp add: strip_newline_def)

lemma strip_newline_id: "last s \<noteq> CHR 0x0A \<Longrightarrow> strip_newline s = s"
  by (simp add: strip_newline_def)

lemma ctl_parse_print_nl:
  assumes "ctl_argument c \<noteq> []"
  shows "ctl_parse (ctl_print c @ [CHR 0x0A]) = Some (ControlMessage_new c)"
proof (cases c)
  case (ShellCommandReq cmd)
  with assms show ?thesis
    by (simp add: ctl_parse_def ShellCommandReq_new_def strip_newline_append)
next
  case (DaemonControlReq action service_name)
  with assms show ?thesis
    by (cases action)
      (simp_all add: ctl_parse_def DaemonControlReq_new_def strip_newline_append)
qed

lemma ctl_parse_fresh:
  "ctl_parse msg = Some m \<Longrightarrow> on_done m = None \<and> \<not> is_s3tp m"
  by (auto simp: ctl_parse_def Let_def is_s3tp_def ShellCommandReq_new_def
      DaemonControlReq_new_def ControlMessage_new_def split: if_splits)

end
