(* ===== verification/State.thy ===== *)
theory State
  imports CtlMessage
begin

text \<open>
  The data of \<^verbatim>\<open>src/state/\<close>: the components of the satellite state, the state itself and
  the three text parsers. The transition table \<open>State::transform_to\<close> is in the theory
  \<open>Table\<close>, after the actions it creates. Field names are those of the classes; \<open>thm\<close> is
  written \<open>thm_c\<close> because \<open>thm\<close> is reserved.
\<close>

subsection \<open>Enumerations\<close>

datatype adcs_mode =
    NONE | SLEEP | ATTDET | DETUMB | NADIR | SUN | FLASH | EXP | TEST | POWEROFF

datatype overall_temp = OK | WARN | ALARM

datatype daemon_state = OFF | IDLE | WANTMEASURE | MEASURING

datatype leop_seq = UNDEPLOYED | DEPLOYED | DONE

text \<open>The underlying values, as the casts to \<open>uint8_t\<close> read them.\<close>

fun adcs_value :: "adcs_mode \<Rightarrow> nat" where
  "adcs_value NONE = 0"
| "adcs_value SLEEP = 1"
| "adcs_value ATTDET = 2"
| "adcs_value DETUMB = 3"
| "adcs_value NADIR = 4"
| "adcs_value SUN = 5"
| "adcs_value FLASH = 6"
| "adcs_value EXP = 7"
| "adcs_value TEST = 8"
| "adcs_value POWEROFF = 15"

fun temp_value :: "overall_temp \<Rightarrow> nat" where
  "temp_value OK = 0"
| "temp_value WARN = 1"
| "temp_value ALARM = 2"

fun daemon_value :: "daemon_state \<Rightarrow> nat" where
  "daemon_value OFF = 0"
| "daemon_value IDLE = 1"
| "daemon_value WANTMEASURE = 2"
| "daemon_value MEASURING = 3"

fun leop_value :: "leop_seq \<Rightarrow> nat" where
  "leop_value UNDEPLOYED = 0"
| "leop_value DEPLOYED = 1"
| "leop_value DONE = 2"

lemma adcs_value_inj: "adcs_value a = adcs_value b \<Longrightarrow> a = b"
  by (cases a; cases b) simp_all

lemma temp_value_inj: "temp_value a = temp_value b \<Longrightarrow> a = b"
  by (cases a; cases b) simp_all

lemma daemon_value_inj: "daemon_value a = daemon_value b \<Longrightarrow> a = b"
  by (cases a; cases b) simp_all

lemma leop_value_inj: "leop_value a = leop_value b \<Longrightarrow> a = b"
  by (cases a; cases b) simp_all

text \<open>The scales of temperature and of the LEOP sequence are ordered by their values.\<close>

instantiation overall_temp :: linorder
begin

definition less_eq_overall_temp :: "overall_temp \<Rightarrow> overall_temp \<Rightarrow> bool" where
  "a \<le> b \<longleftrightarrow> temp_value a \<le> temp_value b"

definition less_overall_temp :: "overall_temp \<Rightarrow> overall_temp \<Rightarrow> bool" where
  "a < b \<longleftrightarrow> temp_value a < temp_value b"

instance
  by standard (auto simp: less_eq_overall_temp_def less_overall_temp_def dest: temp_value_inj)

end

instantiation leop_seq :: linorder
begin

definition less_eq_leop_seq :: "leop_seq \<Rightarrow> leop_seq \<Rightarrow> bool" where
  "a \<le> b \<longleftrightarrow> leop_value a \<le> leop_value b"

definition less_leop_seq :: "leop_seq \<Rightarrow> leop_seq \<Rightarrow> bool" where
  "a < b \<longleftrightarrow> leop_value a < leop_value b"

instance
  by standard (auto simp: less_eq_leop_seq_def less_leop_seq_def dest: leop_value_inj)

end

lemma deployed_le_iff: "DEPLOYED \<le> l \<longleftrightarrow> l \<noteq> UNDEPLOYED"
  by (cases l) (simp_all add: less_eq_leop_seq_def)

subsection \<open>Components and state\<close>

record adcs_component =
  pointing :: adcs_mode
  requested :: adcs_mode

record eps_component =
  battery_level :: u16

record thm_component =
  all_temp :: overall_temp

record payload_component =
  daemon :: daemon_state

record computer_component =
  shell_commands :: "(string \<times> control_message) list"

record state =
  battery_treshold :: u16
  computer :: computer_component
  safemode :: u8
  enforced_safemode :: bool
  manualmode :: bool
  maneuvermode :: bool
  leop :: leop_seq
  eps :: eps_component
  thm_c :: thm_component
  pl :: payload_component
  adcs :: adcs_component

definition ADCS_new :: adcs_component where
  "ADCS_new = \<lparr>pointing = NONE, requested = NONE\<rparr>"

definition EPS_new :: eps_component where
  "EPS_new = \<lparr>battery_level = 30\<rparr>"

definition THM_new :: thm_component where
  "THM_new = \<lparr>all_temp = WARN\<rparr>"

definition Payload_new :: payload_component where
  "Payload_new = \<lparr>daemon = OFF\<rparr>"

definition Computer_new :: computer_component where
  "Computer_new = \<lparr>shell_commands = []\<rparr>"

text \<open>
  The constructor of \<open>State\<close> initialises neither \<open>enforced_safemode\<close> nor \<open>leop\<close>: their
  values after construction are the arguments.
\<close>

definition State_new :: "bool \<Rightarrow> leop_seq \<Rightarrow> state" where
  "State_new enforced0 leop0 =
     \<lparr>battery_treshold = 5000, computer = Computer_new, safemode = 0,
      enforced_safemode = enforced0, manualmode = False, maneuvermode = False,
      leop = leop0, eps = EPS_new, thm_c = THM_new, pl = Payload_new, adcs = ADCS_new\<rparr>"

definition state_copy :: "state \<Rightarrow> state" where
  "state_copy s = s"

subsection \<open>Text parsers\<close>

text \<open>
  Each parser switches on the hash of its (upper-cased) argument; the case labels are
  the hashes of the names.
\<close>

definition str2state :: "bool \<Rightarrow> string \<Rightarrow> adcs_mode" where
  "str2state sc name =
     (let h = str2int sc (upcase name)
      in if h = str2int sc ''NONE'' then NONE
         else if h = str2int sc ''SLEEP'' then SLEEP
         else if h = str2int sc ''ATTDET'' then ATTDET
         else if h = str2int sc ''DETUMB'' then DETUMB
         else if h = str2int sc ''NADIR'' then NADIR
         else if h = str2int sc ''SUN'' then SUN
         else if h = str2int sc ''FLASH'' then FLASH
         else if h = str2int sc ''EXP'' then EXP
         else if h = str2int sc ''TEST'' then TEST
         else if h = str2int sc ''POWEROFF'' then POWEROFF
         else NONE)"

definition str2temp :: "bool \<Rightarrow> string \<Rightarrow> overall_temp" where
  "str2temp sc name =
     (let h = str2int sc name
      in if h = str2int sc ''OK'' then OK
         else if h = str2int sc ''WARN'' then WARN
         else if h = str2int sc ''ALARM'' then ALARM
         else ALARM)"

definition str2leop :: "bool \<Rightarrow> string \<Rightarrow> leop_seq" where
  "str2leop sc name =
     (let h = str2int sc (upcase name)
      in if h = str2int sc ''UNDEPLOYED'' then UNDEPLOYED
         else if h = str2int sc ''DEPLOYED'' then DEPLOYED
         else if h = str2int sc ''DONE'' then DONE
         else UNDEPLOYED)"

definition str2bool :: "bool \<Rightarrow> string \<Rightarrow> std_exception + bool" where
  "str2bool sc name =
     (let h = str2int sc (upcase name)
      in if h = str2int sc ''TRUE'' then Inr True
         else if h = str2int sc ''FALSE'' then Inr False
         else Inl invalid_argument)"

text \<open>The enumerator names, the texts that the parsers are meant to accept.\<close>

fun adcs_name :: "adcs_mode \<Rightarrow> string" where
  "adcs_name NONE = ''NONE''"
| "adcs_name SLEEP = ''SLEEP''"
| "adcs_name ATTDET = ''ATTDET''"
| "adcs_name DETUMB = ''DETUMB''"
| "adcs_name NADIR = ''NADIR''"
| "adcs_name SUN = ''SUN''"
| "adcs_name FLASH = ''FLASH''"
| "adcs_name EXP = ''EXP''"
| "adcs_name TEST = ''TEST''"
| "adcs_name POWEROFF = ''POWEROFF''"

fun temp_name :: "overall_temp \<Rightarrow> string" where
  "temp_name OK = ''OK''"
| "temp_name WARN = ''WARN''"
| "temp_name ALARM = ''ALARM''"

fun leop_name :: "leop_seq \<Rightarrow> string" where
  "leop_name UNDEPLOYED = ''UNDEPLOYED''"
| "leop_name DEPLOYED = ''DEPLOYED''"
| "leop_name DONE = ''DONE''"

fun bool_name :: "bool \<Rightarrow> string" where
  "bool_name True = ''TRUE''"
| "bool_name False = ''FALSE''"

end
