(* ===== verification/Event.thy ===== *)
theory Event
  imports State
begin

text \<open>
  The events of \<^verbatim>\<open>src/event/\<close>. An event object is a constructor of \<open>event\<close> with the
  fields of its class; the two virtual methods of the class are a record
  \<open>event_methods\<close>, one definition per class, and \<open>methods\<close> is the virtual dispatch.
\<close>

datatype event =
    ADCSSignal adcs_mode
  | ADCSreqSignal adcs_mode
  | EPSSignal u16
  | LEOPReq leop_seq
  | LEOPSignal leop_seq
  | ManeuverModeSignal bool
  | ManualModeReq bool
  | ManualModeSignal bool
  | PayloadReq daemon_state
  | PayloadSignal daemon_state
  | SafeModeReq bool
  | SafeModeSignal u8
  | THMSignal overall_temp
  | Control control_message

record event_methods =
  fact :: bool
  upd :: "state \<Rightarrow> state"

subsection \<open>One definition per class\<close>

definition ADCSSignal_methods :: "adcs_mode \<Rightarrow> event_methods" where
  "ADCSSignal_methods adcs_status =
     \<lparr>fact = True, upd = (\<lambda>s. s\<lparr>adcs := (adcs s)\<lparr>pointing := adcs_status, requested := NONE\<rparr>\<rparr>)\<rparr>"

definition ADCSreqSignal_methods :: "adcs_mode \<Rightarrow> event_methods" where
  "ADCSreqSignal_methods adcs_status =
     \<lparr>fact = True, upd = (\<lambda>s. s\<lparr>adcs := (adcs s)\<lparr>requested := adcs_status, pointing := NONE\<rparr>\<rparr>)\<rparr>"

definition EPSSignal_methods :: "u16 \<Rightarrow> event_methods" where
  "EPSSignal_methods bat =
     \<lparr>fact = True, upd = (\<lambda>s. s\<lparr>eps := (eps s)\<lparr>battery_level := bat\<rparr>\<rparr>)\<rparr>"

definition LEOPReq_methods :: "leop_seq \<Rightarrow> event_methods" where
  "LEOPReq_methods wanted = \<lparr>fact = False, upd = (\<lambda>s. s\<lparr>leop := wanted\<rparr>)\<rparr>"

definition LEOPSignal_methods :: "leop_seq \<Rightarrow> event_methods" where
  "LEOPSignal_methods l = \<lparr>fact = True, upd = (\<lambda>s. s\<lparr>leop := l\<rparr>)\<rparr>"

definition ManeuverModeSignal_methods :: "bool \<Rightarrow> event_methods" where
  "ManeuverModeSignal_methods b = \<lparr>fact = True, upd = (\<lambda>s. s\<lparr>maneuvermode := b\<rparr>)\<rparr>"

definition ManualModeReq_methods :: "bool \<Rightarrow> event_methods" where
  "ManualModeReq_methods wanted = \<lparr>fact = False, upd = (\<lambda>s. s\<lparr>manualmode := wanted\<rparr>)\<rparr>"

definition ManualModeSignal_methods :: "bool \<Rightarrow> event_methods" where
  "ManualModeSignal_methods b = \<lparr>fact = True, upd = (\<lambda>s. s\<lparr>manualmode := b\<rparr>)\<rparr>"

definition PayloadReq_methods :: "daemon_state \<Rightarrow> event_methods" where
  "PayloadReq_methods wanted = \<lparr>fact = False, upd = (\<lambda>s. s\<lparr>pl := (pl s)\<lparr>daemon := wanted\<rparr>\<rparr>)\<rparr>"

definition PayloadSignal_methods :: "daemon_state \<Rightarrow> event_methods" where
  "PayloadSignal_methods p = \<lparr>fact = True, upd = (\<lambda>s. s\<lparr>pl := (pl s)\<lparr>daemon := p\<rparr>\<rparr>)\<rparr>"

text \<open>The field \<open>safemode\<close> is a \<open>uint8_t\<close> assigned from a \<open>bool\<close>: the value is 0 or 1.\<close>

definition SafeModeReq_methods :: "bool \<Rightarrow> event_methods" where
  "SafeModeReq_methods wanted =
     \<lparr>fact = False,
      upd = (\<lambda>s. s\<lparr>safemode := (if wanted then 1 else 0), enforced_safemode := True\<rparr>)\<rparr>"

definition SafeModeSignal_methods :: "u8 \<Rightarrow> event_methods" where
  "SafeModeSignal_methods r = \<lparr>fact = True, upd = (\<lambda>s. s\<lparr>safemode := r\<rparr>)\<rparr>"

definition THMSignal_methods :: "overall_temp \<Rightarrow> event_methods" where
  "THMSignal_methods t = \<lparr>fact = True, upd = (\<lambda>s. s\<lparr>thm_c := (thm_c s)\<lparr>all_temp := t\<rparr>\<rparr>)\<rparr>"

text \<open>
  Both classes of control messages queue a command together with the message itself; a
  control message is never a fact.
\<close>

definition push_command :: "string \<Rightarrow> control_message \<Rightarrow> state \<Rightarrow> state" where
  "push_command c m s =
     s\<lparr>computer := (computer s)\<lparr>shell_commands := shell_commands (computer s) @ [(c, m)]\<rparr>\<rparr>"

definition ShellCommandReq_methods :: "string \<Rightarrow> control_message \<Rightarrow> event_methods" where
  "ShellCommandReq_methods command m = \<lparr>fact = False, upd = push_command command m\<rparr>"

definition DaemonControlReq_methods ::
    "daemon_ctl_action_t \<Rightarrow> string \<Rightarrow> control_message \<Rightarrow> event_methods" where
  "DaemonControlReq_methods action service_name m =
     \<lparr>fact = False, upd = push_command (ctl_command (DaemonControlReq action service_name)) m\<rparr>"

definition Control_methods :: "control_message \<Rightarrow> event_methods" where
  "Control_methods m =
     (case ctl m of
        ShellCommandReq command \<Rightarrow> ShellCommandReq_methods command m
      | DaemonControlReq action service_name \<Rightarrow> DaemonControlReq_methods action service_name m)"

subsection \<open>Virtual dispatch\<close>

fun methods :: "event \<Rightarrow> event_methods" where
  "methods (ADCSSignal a) = ADCSSignal_methods a"
| "methods (ADCSreqSignal a) = ADCSreqSignal_methods a"
| "methods (EPSSignal b) = EPSSignal_methods b"
| "methods (LEOPReq l) = LEOPReq_methods l"
| "methods (LEOPSignal l) = LEOPSignal_methods l"
| "methods (ManeuverModeSignal b) = ManeuverModeSignal_methods b"
| "methods (ManualModeReq b) = ManualModeReq_methods b"
| "methods (ManualModeSignal b) = ManualModeSignal_methods b"
| "methods (PayloadReq p) = PayloadReq_methods p"
| "methods (PayloadSignal p) = PayloadSignal_methods p"
| "methods (SafeModeReq b) = SafeModeReq_methods b"
| "methods (SafeModeSignal r) = SafeModeSignal_methods r"
| "methods (THMSignal t) = THMSignal_methods t"
| "methods (Control m) = Control_methods m"

definition is_fact :: "event \<Rightarrow> bool" where
  "is_fact ev = fact (methods ev)"

definition update :: "event \<Rightarrow> state \<Rightarrow> state" where
  "update ev = upd (methods ev)"

lemmas event_class_defs =
  ADCSSignal_methods_def ADCSreqSignal_methods_def EPSSignal_methods_def LEOPReq_methods_def
  LEOPSignal_methods_def ManeuverModeSignal_methods_def ManualModeReq_methods_def
  ManualModeSignal_methods_def PayloadReq_methods_def PayloadSignal_methods_def
  SafeModeReq_methods_def SafeModeSignal_methods_def THMSignal_methods_def
  ShellCommandReq_methods_def DaemonControlReq_methods_def Control_methods_def

text \<open>The facts are the signals; everything that asks for something is a request.\<close>

lemma is_fact_simps [simp]:
  "is_fact (ADCSSignal a)" "is_fact (ADCSreqSignal a)" "is_fact (EPSSignal b)"
  "\<not> is_fact (LEOPReq l)" "is_fact (LEOPSignal l)" "is_fact (ManeuverModeSignal m)"
  "\<not> is_fact (ManualModeReq m)" "is_fact (ManualModeSignal m)" "\<not> is_fact (PayloadReq p)"
  "is_fact (PayloadSignal p)" "\<not> is_fact (SafeModeReq m)" "is_fact (SafeModeSignal r)"
  "is_fact (THMSignal t)" "\<not> is_fact (Control c)"
  by (simp_all add: is_fact_def event_class_defs split: ctl_class.split)

lemma update_simps [simp]:
  "update (ADCSSignal a) s = s\<lparr>adcs := (adcs s)\<lparr>pointing := a, requested := NONE\<rparr>\<rparr>"
  "update (ADCSreqSignal a) s = s\<lparr>adcs := (adcs s)\<lparr>requested := a, pointing := NONE\<rparr>\<rparr>"
  "update (EPSSignal b) s = s\<lparr>eps := (eps s)\<lparr>battery_level := b\<rparr>\<rparr>"
  "update (LEOPReq l) s = s\<lparr>leop := l\<rparr>"
  "update (LEOPSignal l) s = s\<lparr>leop := l\<rparr>"
  "update (ManeuverModeSignal m) s = s\<lparr>maneuvermode := m\<rparr>"
  "update (ManualModeReq m) s = s\<lparr>manualmode := m\<rparr>"
  "update (ManualModeSignal m) s = s\<lparr>manualmode := m\<rparr>"
  "update (PayloadReq p) s = s\<lparr>pl := (pl s)\<lparr>daemon := p\<rparr>\<rparr>"
  "update (PayloadSignal p) s = s\<lparr>pl := (pl s)\<lparr>daemon := p\<rparr>\<rparr>"
  "update (SafeModeReq m) s = s\<lparr>safemode := (if m then 1 else 0), enforced_safemode := True\<rparr>"
  "update (SafeModeSignal r) s = s\<lparr>safemode := r\<rparr>"
  "update (THMSignal t) s = s\<lparr>thm_c := (thm_c s)\<lparr>all_temp := t\<rparr>\<rparr>"
  by (simp_all add: update_def event_class_defs)

lemma update_Control [simp]: "update (Control m) s = push_command (ctl_command (ctl m)) m s"
  by (simp add: update_def event_class_defs split: ctl_class.split)

text \<open>
  Facts never touch the flag that forces safemode, the threshold or the command queue;
  these are the fields on which the behaviour of the transition table between events
  rests.
\<close>

lemma fact_frame:
  assumes "is_fact ev"
  shows "enforced_safemode (update ev s) = enforced_safemode s"
    and "computer (update ev s) = computer s"
    and "battery_treshold (update ev s) = battery_treshold s"
  using assms by (cases ev; simp)+

end
