(* ===== verification/Action.thy ===== *)
theory Action
  imports State Process
begin

text \<open>
  The action objects of \<^verbatim>\<open>src/action/\<close>: the fields of the class \<open>ShellCommand\<close> and, as
  \<open>kind\<close>, the derived class with its own fields. What the actions do when they are
  performed needs the satellite and is in the theory \<open>Satellite\<close>.
\<close>

datatype action_kind =
    PlainShell
  | EnterManualMode
  | EnterSafeMode u8
  | FinishLEOP
  | LeaveManualMode
  | LeaveSafeMode
  | TriggerDetumbling
  | TriggerMeasuring
  | TriggerSunpointing

record action =
  kind :: action_kind
  child :: "process option"
  command :: string
  request :: "control_message option"
  cmdprefix :: string
  iscmdprefix :: bool

subsection \<open>Constructors\<close>

definition ShellCommand_new :: "action_kind \<Rightarrow> string \<Rightarrow> control_message option \<Rightarrow> action" where
  "ShellCommand_new k c req =
     \<lparr>kind = k, child = None, command = c, request = req, cmdprefix = [], iscmdprefix = False\<rparr>"

definition ShellCommand_new_prefix :: "string \<Rightarrow> string \<Rightarrow> control_message option \<Rightarrow> action" where
  "ShellCommand_new_prefix c prefix req =
     \<lparr>kind = PlainShell, child = None, command = c, request = req,
      cmdprefix = prefix, iscmdprefix = True\<rparr>"

definition EnterManualMode_new :: action where
  "EnterManualMode_new = ShellCommand_new EnterManualMode ''enter_manualmode.sh'' None"

definition EnterSafeMode_new :: "u8 \<Rightarrow> action" where
  "EnterSafeMode_new reason = ShellCommand_new (EnterSafeMode reason) ''enter_safemode.sh'' None"

definition FinishLEOP_new :: action where
  "FinishLEOP_new = ShellCommand_new FinishLEOP ''finish_leop.sh'' None"

definition LeaveManualMode_new :: action where
  "LeaveManualMode_new = ShellCommand_new LeaveManualMode ''leave_manualmode.sh'' None"

definition LeaveSafeMode_new :: action where
  "LeaveSafeMode_new = ShellCommand_new LeaveSafeMode ''leave_safemode.sh'' None"

definition TriggerDetumbling_new :: action where
  "TriggerDetumbling_new = ShellCommand_new TriggerDetumbling ''trigger_detumbling.sh'' None"

definition TriggerMeasuring_new :: action where
  "TriggerMeasuring_new = ShellCommand_new TriggerMeasuring ''trigger_measuring.sh'' None"

definition TriggerSunpointing_new :: action where
  "TriggerSunpointing_new = ShellCommand_new TriggerSunpointing ''trigger_sunpointing.sh'' None"

lemmas action_new_defs =
  ShellCommand_new_def ShellCommand_new_prefix_def EnterManualMode_new_def EnterSafeMode_new_def
  FinishLEOP_new_def LeaveManualMode_new_def LeaveSafeMode_new_def TriggerDetumbling_new_def
  TriggerMeasuring_new_def TriggerSunpointing_new_def

subsection \<open>Accessors\<close>

definition action_is_s3tp :: "action \<Rightarrow> bool" where
  "action_is_s3tp a = (case request a of None \<Rightarrow> False | Some m \<Rightarrow> is_s3tp m)"

definition describe :: "action \<Rightarrow> string" where
  "describe a =
     (case kind a of
        PlainShell \<Rightarrow> ''execute shell command: '' @ [CHR 0x27] @ command a @ [CHR 0x27]
      | EnterManualMode \<Rightarrow> ''Enter manualmode''
      | EnterSafeMode _ \<Rightarrow> ''Enter safemode''
      | FinishLEOP \<Rightarrow> ''Finish LEOP''
      | LeaveManualMode \<Rightarrow> ''Leave manualmode''
      | LeaveSafeMode \<Rightarrow> ''Leave safemode''
      | TriggerDetumbling \<Rightarrow> ''Trigger detumbling on adcs daemon''
      | TriggerMeasuring \<Rightarrow> ''Trigger measuring on payload daemon''
      | TriggerSunpointing \<Rightarrow> ''Trigger sunpointing on adcs daemon'')"

text \<open>
  Before it runs, an action without a prefix takes the script directory \<open>path\<close> as its
  prefix; \<open>command_line\<close> is the text then handed to \<open>sh -c\<close>.
\<close>

definition set_default_prefix :: "string \<Rightarrow> action \<Rightarrow> action" where
  "set_default_prefix path a =
     (if \<not> iscmdprefix a then a\<lparr>cmdprefix := path, iscmdprefix := True\<rparr> else a)"

definition command_line :: "string \<Rightarrow> action \<Rightarrow> string" where
  "command_line path a = cmdprefix (set_default_prefix path a) @ command (set_default_prefix path a)"

lemma set_default_prefix_sel [simp]:
  "kind (set_default_prefix path a) = kind a"
  "request (set_default_prefix path a) = request a"
  "command (set_default_prefix path a) = command a"
  by (simp_all add: set_default_prefix_def)

lemma kind_new [simp]:
  "kind (ShellCommand_new k c r) = k" "kind (ShellCommand_new_prefix c p r) = PlainShell"
  "kind EnterManualMode_new = EnterManualMode" "kind (EnterSafeMode_new u) = EnterSafeMode u"
  "kind FinishLEOP_new = FinishLEOP" "kind LeaveManualMode_new = LeaveManualMode"
  "kind LeaveSafeMode_new = LeaveSafeMode" "kind TriggerDetumbling_new = TriggerDetumbling"
  "kind TriggerMeasuring_new = TriggerMeasuring"
  "kind TriggerSunpointing_new = TriggerSunpointing"
  by (simp_all add: action_new_defs)

lemma command_line_new [simp]:
  "command_line path (ShellCommand_new k c r) = path @ c"
  "command_line path (ShellCommand_new_prefix c p r) = p @ c"
  "command_line path EnterManualMode_new = path @ ''enter_manualmode.sh''"
  "command_line path (EnterSafeMode_new u) = path @ ''enter_safemode.sh''"
  "command_line path FinishLEOP_new = path @ ''finish_leop.sh''"
  "command_line path LeaveManualMode_new = path @ ''leave_manualmode.sh''"
  "command_line path LeaveSafeMode_new = path @ ''leave_safemode.sh''"
  "command_line path TriggerDetumbling_new = path @ ''trigger_detumbling.sh''"
  "command_line path TriggerMeasuring_new = path @ ''trigger_measuring.sh''"
  "command_line path TriggerSunpointing_new = path @ ''trigger_sunpointing.sh''"
  by (simp_all add: command_line_def set_default_prefix_def action_new_defs)

end
