(* ===== verification/Table.thy ===== *)
theory Table
  imports Event Action
begin

text \<open>
  The transition table: \<open>State::transform_to\<close> of \<^verbatim>\<open>src/state/state.cpp\<close> with the
  component method it calls, translated statement by statement, the declarative
  reading of it as a list of guarded rules, and the logic table of \<^verbatim>\<open>doc/system_design.md\<close>,
  row by row, with the rows where the code departs from it.
\<close>

subsection \<open>The code\<close>

definition Computer_transform_to :: "computer_component \<Rightarrow> computer_component \<Rightarrow> action list" where
  "Computer_transform_to this target =
     map (\<lambda>(c, req). ShellCommand_new_prefix c [] (Some req)) (shell_commands target)"

text \<open>The other components have no transition of their own.\<close>

definition EPS_transform_to :: "eps_component \<Rightarrow> eps_component \<Rightarrow> action list" where
  "EPS_transform_to this target = []"

definition THM_transform_to :: "thm_component \<Rightarrow> thm_component \<Rightarrow> action list" where
  "THM_transform_to this target = []"

definition Payload_transform_to :: "payload_component \<Rightarrow> payload_component \<Rightarrow> action list" where
  "Payload_transform_to this target = []"

definition ADCS_transform_to :: "adcs_component \<Rightarrow> adcs_component \<Rightarrow> action list" where
  "ADCS_transform_to this target = []"

definition transform_to :: "state \<Rightarrow> state \<Rightarrow> state \<times> action list" where
  "transform_to this target =
     (let ret = [];
          ret = fst (vector_extend_move ret
                  (Computer_transform_to (computer this) (computer target)));
          ret = (if manualmode target \<and> \<not> manualmode this then ret @ [EnterManualMode_new]
                 else if \<not> manualmode target \<and> manualmode this then ret @ [LeaveManualMode_new]
                 else ret);
          ret = (if safemode target \<noteq> 0 \<and> (safemode this = 0 \<or> enforced_safemode target)
                 then ret @ [EnterSafeMode_new 3]
                 else if safemode target = 0 \<and> safemode this \<noteq> 0 then ret @ [LeaveSafeMode_new]
                 else ret);
          (this, ret) =
            (if leop target \<noteq> leop this
             then if leop target = DONE then (this, ret @ [FinishLEOP_new])
                  else (this\<lparr>leop := leop target\<rparr>, ret)
             else (this, ret));
          ret =
            (if safemode this = 0 \<and> \<not> manualmode this
             then
               let ret = (if all_temp (thm_c this) = ALARM then ret @ [EnterSafeMode_new 1]
                          else if battery_level (eps this) < battery_treshold this
                          then ret @ [EnterSafeMode_new 2]
                          else ret);
                   ret = (if daemon (pl target) = WANTMEASURE \<and>
                             battery_treshold this < battery_level (eps this) \<and>
                             all_temp (thm_c this) = OK \<and> leop this = DONE
                          then ret @ [TriggerMeasuring_new] else ret)
               in if \<not> maneuvermode this
                  then
                    let ret = (if pointing (adcs this) \<noteq> SUN \<and> pointing (adcs this) \<noteq> DETUMB \<and>
                                  requested (adcs this) \<noteq> SUN \<and> requested (adcs this) \<noteq> DETUMB \<and>
                                  leop this \<noteq> UNDEPLOYED
                               then ret @ [TriggerDetumbling_new] else ret)
                    in if pointing (adcs this) = DETUMB \<and> leop this \<noteq> UNDEPLOYED
                       then ret @ [TriggerSunpointing_new] else ret
                  else ret
             else ret)
      in (this, ret))"

subsection \<open>The rules\<close>

text \<open>
  Emergencies: the conditions under which the table leaves nominal operation. The
  temperature alarm is looked at first.
\<close>

definition emergency_reason :: "state \<Rightarrow> u8 option" where
  "emergency_reason s =
     (if all_temp (thm_c s) = ALARM then Some 1
      else if battery_level (eps s) < battery_treshold s then Some 2
      else None)"

definition emergency :: "state \<Rightarrow> bool" where
  "emergency s \<longleftrightarrow> all_temp (thm_c s) = ALARM \<or> battery_level (eps s) < battery_treshold s"

lemma emergency_iff_reason: "emergency s \<longleftrightarrow> emergency_reason s \<noteq> None"
  by (simp add: emergency_def emergency_reason_def)

text \<open>Nominal operation: neither safemode nor manual mode, so the autonomous rules apply.\<close>

definition nominal :: "state \<Rightarrow> bool" where
  "nominal s \<longleftrightarrow> safemode s = 0 \<and> \<not> manualmode s"

definition measuring_allowed :: "state \<Rightarrow> bool" where
  "measuring_allowed s \<longleftrightarrow>
     battery_treshold s < battery_level (eps s) \<and> all_temp (thm_c s) = OK \<and> leop s = DONE"

definition adcs_idle :: "state \<Rightarrow> bool" where
  "adcs_idle s \<longleftrightarrow> {pointing (adcs s), requested (adcs s)} \<inter> {SUN, DETUMB} = {}"

text \<open>
  One rule of the code: a guard on the current and the target state, and the
  action it triggers.
\<close>

record rule =
  guard :: "state \<Rightarrow> state \<Rightarrow> bool"
  triggers :: action

definition rules :: "rule list" where
  "rules =
     [\<lparr>guard = (\<lambda>this target. manualmode target \<and> \<not> manualmode this),
       triggers = EnterManualMode_new\<rparr>,
      \<lparr>guard = (\<lambda>this target. \<not> manualmode target \<and> manualmode this),
       triggers = LeaveManualMode_new\<rparr>,
      \<lparr>guard = (\<lambda>this target. safemode target \<noteq> 0 \<and> (safemode this = 0 \<or> enforced_safemode target)),
       triggers = EnterSafeMode_new 3\<rparr>,
      \<lparr>guard = (\<lambda>this target. safemode target = 0 \<and> safemode this \<noteq> 0),
       triggers = LeaveSafeMode_new\<rparr>,
      \<lparr>guard = (\<lambda>this target. leop target = DONE \<and> leop this \<noteq> DONE),
       triggers = FinishLEOP_new\<rparr>,
      \<lparr>guard = (\<lambda>this target. nominal this \<and> emergency_reason this = Some 1),
       triggers = EnterSafeMode_new 1\<rparr>,
      \<lparr>guard = (\<lambda>this target. nominal this \<and> emergency_reason this = Some 2),
       triggers = EnterSafeMode_new 2\<rparr>,
      \<lparr>guard = (\<lambda>this target. nominal this \<and> daemon (pl target) = WANTMEASURE \<and>
         measuring_allowed this \<and> leop target = DONE),
       triggers = TriggerMeasuring_new\<rparr>,
      \<lparr>guard = (\<lambda>this target. nominal this \<and> \<not> maneuvermode this \<and> adcs_idle this \<and>
         DEPLOYED \<le> (if leop target = DONE then leop this else leop target)),
       triggers = TriggerDetumbling_new\<rparr>,
      \<lparr>guard = (\<lambda>this target. nominal this \<and> \<not> maneuvermode this \<and> pointing (adcs this) = DETUMB \<and>
         DEPLOYED \<le> (if leop target = DONE then leop this else leop target)),
       triggers = TriggerSunpointing_new\<rparr>]"

definition fired :: "state \<Rightarrow> state \<Rightarrow> action list" where
  "fired this target = map triggers (filter (\<lambda>r. guard r this target) rules)"

text \<open>The one state change of the table: a LEOP phase other than \<open>DONE\<close> is taken over.\<close>

definition leop_shift :: "state \<Rightarrow> state \<Rightarrow> state" where
  "leop_shift this target = (if leop target = DONE then this else this\<lparr>leop := leop target\<rparr>)"

subsection \<open>The code is the table\<close>

lemma append_if:
  "(if c then xs @ ys else xs) = xs @ (if c then ys else [])"
  "(if c then xs @ ys else if d then xs @ zs else xs) =
     xs @ (if c then ys else if d then zs else [])"
  by simp_all

lemma map_filter_Cons:
  "map f (filter P (x # xs)) = (if P x then [f x] else []) @ map f (filter P xs)"
  by simp

text \<open>The two halves of the fired rules: those that answer a request, and the autonomous ones.\<close>

definition request_rules :: "state \<Rightarrow> state \<Rightarrow> action list" where
  "request_rules this target =
     (if manualmode target \<and> \<not> manualmode this then [EnterManualMode_new]
      else if \<not> manualmode target \<and> manualmode this then [LeaveManualMode_new] else [])
     @ (if safemode target \<noteq> 0 \<and> (safemode this = 0 \<or> enforced_safemode target)
        then [EnterSafeMode_new 3]
        else if safemode target = 0 \<and> safemode this \<noteq> 0 then [LeaveSafeMode_new] else [])
     @ (if leop target = DONE \<and> leop this \<noteq> DONE then [FinishLEOP_new] else [])"

definition auto_rules :: "daemon_state \<Rightarrow> state \<Rightarrow> action list" where
  "auto_rules wanted s =
     (if nominal s
      then (case emergency_reason s of None \<Rightarrow> [] | Some r \<Rightarrow> [EnterSafeMode_new r])
        @ (if wanted = WANTMEASURE \<and> measuring_allowed s then [TriggerMeasuring_new] else [])
        @ (if \<not> maneuvermode s \<and> adcs_idle s \<and> DEPLOYED \<le> leop s
           then [TriggerDetumbling_new] else [])
        @ (if \<not> maneuvermode s \<and> pointing (adcs s) = DETUMB \<and> DEPLOYED \<le> leop s
           then [TriggerSunpointing_new] else [])
      else [])"

lemma leop_irrelevant [simp]:
  "nominal (s\<lparr>leop := l\<rparr>) = nominal s"
  "adcs_idle (s\<lparr>leop := l\<rparr>) = adcs_idle s"
  "emergency_reason (s\<lparr>leop := l\<rparr>) = emergency_reason s"
  by (simp_all add: nominal_def adcs_idle_def emergency_reason_def)

lemma leop_shift_simps:
  "leop (leop_shift this target) = (if leop target = DONE then leop this else leop target)"
  "nominal (leop_shift this target) = nominal this"
  "safemode (leop_shift this target) = safemode this"
  "manualmode (leop_shift this target) = manualmode this"
  "emergency_reason (leop_shift this target) = emergency_reason this"
  "maneuvermode (leop_shift this target) = maneuvermode this"
  "adcs (leop_shift this target) = adcs this"
  "adcs_idle (leop_shift this target) = adcs_idle this"
  by (simp_all add: leop_shift_def nominal_def emergency_reason_def adcs_idle_def)

lemma transform_to_split:
  "transform_to this target =
     (leop_shift this target,
      Computer_transform_to (computer this) (computer target)
        @ request_rules this target @ auto_rules (daemon (pl target)) (leop_shift this target))"
proof -
  have r: "fst (vector_extend_move [] xs) = xs" for xs :: "action list"
    by (simp add: vector_extend_move_def)
  consider "leop target = leop this" | "leop target \<noteq> leop this" "leop target = DONE"
    | "leop target \<noteq> leop this" "leop target \<noteq> DONE"
    by blast
  then show ?thesis
  proof cases
    case 1
    then show ?thesis
      by (simp add: transform_to_def r Let_def append_if request_rules_def auto_rules_def
          leop_shift_def nominal_def emergency_reason_def measuring_allowed_def adcs_idle_def
          deployed_le_iff)
  next
    case 2
    then show ?thesis
      by (simp add: transform_to_def r Let_def append_if request_rules_def auto_rules_def
          leop_shift_def nominal_def emergency_reason_def measuring_allowed_def adcs_idle_def
          deployed_le_iff)
  next
    case 3
    then show ?thesis
      by (simp add: transform_to_def r Let_def append_if request_rules_def auto_rules_def
          leop_shift_def nominal_def emergency_reason_def measuring_allowed_def adcs_idle_def
          deployed_le_iff)
  qed
qed

lemma request_rules_fired:
  "map triggers (filter (\<lambda>r. guard r this target) (take 5 rules)) = request_rules this target"
  by (auto simp: rules_def request_rules_def)

lemma auto_rules_fired:
  "map triggers (filter (\<lambda>r. guard r this target) (drop 5 rules)) =
     auto_rules (daemon (pl target)) (leop_shift this target)"
proof (cases "nominal this")
  case True
  then show ?thesis
    by (cases "emergency_reason this")
      (auto simp: rules_def auto_rules_def leop_shift_simps measuring_allowed_def
        leop_shift_def emergency_reason_def deployed_le_iff split: if_split_asm)
next
  case False
  then show ?thesis
    by (simp add: rules_def auto_rules_def leop_shift_simps)
qed

lemma fired_split:
  "fired this target =
     request_rules this target @ auto_rules (daemon (pl target)) (leop_shift this target)"
  unfolding fired_def
  by (subst append_take_drop_id [of 5 rules, symmetric])
    (simp only: filter_append map_append request_rules_fired auto_rules_fired)

subsection \<open>The documented table\<close>

text \<open>
  The rows of the logic table of \<^verbatim>\<open>doc/system_design.md\<close>, in its order, each with its cells as
  a condition on the current state (and, in the column \<open>Request\<close>, on the target) and with
  the action whose script it names. A cell without a check is no conjunct.
\<close>

datatype table_row =
  ManualmodeOn | ManualmodeOff | BatteryLow | TemperatureAlarm | SafemodeOn | SafemodeOff |
  PLMeasure | AdcsDetumbling | AdcsSunpointing | LeopDone

fun documented :: "table_row \<Rightarrow> state \<Rightarrow> state \<Rightarrow> bool" where
  "documented ManualmodeOn s target \<longleftrightarrow> manualmode target \<and> \<not> manualmode s"
| "documented ManualmodeOff s target \<longleftrightarrow> \<not> manualmode target \<and> manualmode s"
| "documented BatteryLow s target \<longleftrightarrow> safemode s = 0 \<and> \<not> manualmode s \<and>
     battery_level (eps s) < battery_treshold s"
| "documented TemperatureAlarm s target \<longleftrightarrow> safemode s = 0 \<and> \<not> manualmode s \<and>
     all_temp (thm_c s) = ALARM"
| "documented SafemodeOn s target \<longleftrightarrow> safemode target \<noteq> 0 \<and> safemode s = 0"
| "documented SafemodeOff s target \<longleftrightarrow> safemode target = 0 \<and> safemode s \<noteq> 0"
| "documented PLMeasure s target \<longleftrightarrow> daemon (pl target) = WANTMEASURE \<and> safemode s = 0 \<and>
     \<not> manualmode s \<and> battery_treshold s < battery_level (eps s) \<and> all_temp (thm_c s) = OK \<and>
     leop s = DONE"
| "documented AdcsDetumbling s target \<longleftrightarrow> safemode s = 0 \<and> \<not> manualmode s \<and>
     \<not> maneuvermode s \<and> pointing (adcs s) \<notin> {SUN, DETUMB} \<and> requested (adcs s) \<notin> {SUN, DETUMB} \<and>
     leop s \<noteq> UNDEPLOYED"
| "documented AdcsSunpointing s target \<longleftrightarrow> safemode s = 0 \<and> \<not> manualmode s \<and>
     \<not> maneuvermode s \<and> pointing (adcs s) = DETUMB \<and> leop s \<noteq> UNDEPLOYED"
| "documented LeopDone s target \<longleftrightarrow> leop s \<noteq> DONE"

fun row_action :: "table_row \<Rightarrow> action" where
  "row_action ManualmodeOn = EnterManualMode_new"
| "row_action ManualmodeOff = LeaveManualMode_new"
| "row_action BatteryLow = EnterSafeMode_new 2"
| "row_action TemperatureAlarm = EnterSafeMode_new 1"
| "row_action SafemodeOn = EnterSafeMode_new 3"
| "row_action SafemodeOff = LeaveSafeMode_new"
| "row_action PLMeasure = TriggerMeasuring_new"
| "row_action AdcsDetumbling = TriggerDetumbling_new"
| "row_action AdcsSunpointing = TriggerSunpointing_new"
| "row_action LeopDone = FinishLEOP_new"

text \<open>
  Where the code departs from the documented cells: a low battery is not acted upon beside a
  temperature alarm, an enforced request enters safemode again, and the end of the LEOP is
  a request like the others.
\<close>

fun row_fires :: "table_row \<Rightarrow> state \<Rightarrow> state \<Rightarrow> bool" where
  "row_fires BatteryLow s target \<longleftrightarrow> documented BatteryLow s target \<and> \<not> documented TemperatureAlarm s target"
| "row_fires SafemodeOn s target \<longleftrightarrow> documented SafemodeOn s target \<or>
     safemode target \<noteq> 0 \<and> enforced_safemode target"
| "row_fires LeopDone s target \<longleftrightarrow> documented LeopDone s target \<and> leop target = DONE"
| "row_fires row s target \<longleftrightarrow> documented row s target"

lemma deployed_iff: "DEPLOYED \<le> l \<longleftrightarrow> l \<noteq> UNDEPLOYED"
  by (simp add: deployed_le_iff)

lemma auto_rules_rows:
  "a \<in> set (auto_rules (daemon (pl target)) s) \<longleftrightarrow>
     (\<exists>row\<in>{BatteryLow, TemperatureAlarm, PLMeasure, AdcsDetumbling, AdcsSunpointing}.
        row_fires row s target \<and> a = row_action row)"
  by (auto simp: auto_rules_def nominal_def emergency_reason_def measuring_allowed_def
      adcs_idle_def deployed_iff)

lemma request_rules_rows:
  "a \<in> set (request_rules this target) \<longleftrightarrow>
     (\<exists>row\<in>{ManualmodeOn, ManualmodeOff, SafemodeOn, SafemodeOff, LeopDone}.
        row_fires row (leop_shift this target) target \<and> a = row_action row)"
  by (auto simp: request_rules_def leop_shift_simps)

lemma table_rows:
  "{ManualmodeOn, ManualmodeOff, SafemodeOn, SafemodeOff, LeopDone} \<union>
   {BatteryLow, TemperatureAlarm, PLMeasure, AdcsDetumbling, AdcsSunpointing} = UNIV"
proof -
  have "row \<in> {ManualmodeOn, ManualmodeOff, SafemodeOn, SafemodeOff, LeopDone} \<union>
      {BatteryLow, TemperatureAlarm, PLMeasure, AdcsDetumbling, AdcsSunpointing}" for row
    by (cases row) simp_all
  then show ?thesis
    by (simp only: set_eq_iff UNIV_I simp_thms)
qed

lemma fired_rows:
  "set (fired this target) = row_action ` {row. row_fires row (leop_shift this target) target}"
proof (rule set_eqI)
  fix a
  have "a \<in> set (fired this target) \<longleftrightarrow>
      (\<exists>row. row_fires row (leop_shift this target) target \<and> a = row_action row)"
    by (simp only: fired_split set_append Un_iff request_rules_rows auto_rules_rows
        bex_Un [symmetric] table_rows UNIV_I bex_UNIV)
  then show "a \<in> set (fired this target) \<longleftrightarrow>
      a \<in> row_action ` {row. row_fires row (leop_shift this target) target}"
    by blast
qed

lemma row_action_inj: "row_action r = row_action r' \<longleftrightarrow> r = r'"
proof -
  have "kind (row_action r) = kind (row_action r') \<Longrightarrow> r = r'"
    by (cases r; cases r') simp_all
  then show ?thesis
    by auto
qed

lemma row_fires_iff:
  "row_action row \<in> set (fired this target) \<longleftrightarrow> row_fires row (leop_shift this target) target"
  by (auto simp: fired_rows row_action_inj)

subsection \<open>Membership\<close>

lemma auto_rules_mem:
  "a \<in> set (auto_rules w s) \<longleftrightarrow> nominal s \<and>
     ((\<exists>r. emergency_reason s = Some r \<and> a = EnterSafeMode_new r) \<or>
      a = TriggerMeasuring_new \<and> w = WANTMEASURE \<and> measuring_allowed s \<or>
      a = TriggerDetumbling_new \<and> \<not> maneuvermode s \<and> adcs_idle s \<and> DEPLOYED \<le> leop s \<or>
      a = TriggerSunpointing_new \<and> \<not> maneuvermode s \<and> pointing (adcs s) = DETUMB \<and>
        DEPLOYED \<le> leop s)"
  by (cases "emergency_reason s") (auto simp: auto_rules_def)

lemma request_rules_kind:
  "a \<in> set (request_rules this target) \<Longrightarrow>
     kind a \<in> {EnterManualMode, LeaveManualMode, EnterSafeMode 3, LeaveSafeMode, FinishLEOP}"
  by (auto simp: request_rules_def split: if_splits)

lemma commands_kind: "a \<in> set (Computer_transform_to c c') \<Longrightarrow> kind a = PlainShell"
  by (auto simp: Computer_transform_to_def)

text \<open>What the table triggers by itself, it triggers by an autonomous rule.\<close>

definition autonomous :: "action_kind set" where
  "autonomous = {TriggerMeasuring, TriggerDetumbling, TriggerSunpointing}"

lemma autonomous_by_rule:
  assumes "a \<in> set (snd (transform_to this target))" and "kind a \<in> autonomous"
  shows "a \<in> set (auto_rules (daemon (pl target)) (leop_shift this target))"
  using assms request_rules_kind [of a this target]
    commands_kind [of a "computer this" "computer target"]
  by (auto simp: transform_to_split autonomous_def)

end
