(* ===== verification/Satellite.thy ===== *)
theory Satellite
  imports Table
begin

text \<open>
  The satellite object of \<^verbatim>\<open>src/satellite.h\<close> and \<^verbatim>\<open>src/satellite.cpp\<close> and the methods
  \<open>perform\<close> of the actions of \<^verbatim>\<open>src/action/\<close>, which call back into it.

  \<open>Satellite::on_event\<close> is re-entrant: performing an action may emit further events
  before the outer call has finished its list of actions. The event handler that an
  action calls is therefore an argument \<open>oe\<close> of the action's operations, and \<open>on_event\<close>
  ties the knot with the depth of the call stack as its recursion argument: at depth 0
  the stack is exhausted.

  libuv is the argument \<open>U\<close>: the result of \<open>uv_spawn\<close> for a command line, given the
  spawns made before. The identifier type \<open>id_t\<close> is an unsigned 64-bit counter that
  grows by one per action; it is a natural number here.
\<close>

type_synonym id = nat
type_synonym spawn = "string \<times> int"
type_synonym spawner = "spawn list \<Rightarrow> string \<Rightarrow> int"

subsection \<open>State\<close>

text \<open>
  \<open>scripts\<close> is \<open>args.scripts\<close>. \<open>spawn_log\<close> lists the command lines handed to libuv with
  the results, in order; \<open>replies\<close> the calls of \<open>on_done\<close> callbacks.
\<close>

record satellite =
  current_state :: state
  actions :: "id \<rightharpoonup> action"
  next_id :: id
  scripts :: string
  spawn_log :: "spawn list"
  replies :: "(callback \<times> string) list"

type_synonym handler = "event \<Rightarrow> satellite \<Rightarrow> satellite outcome"

text \<open>
  The program arguments (\<^verbatim>\<open>src/args.h\<close>) and the constructor. The arguments \<open>enforced0\<close>
  and \<open>leop0\<close> are the indeterminate values of the two fields that the constructor of
  \<open>State\<close> leaves uninitialised; \<open>leop\<close> is overwritten.
\<close>

record arguments =
  port :: int
  socketpath :: string
  startmanual :: bool
  arg_leop :: leop_seq
  arg_battery_treshold :: u16
  arg_scripts :: string

definition arguments_default :: arguments where
  "arguments_default =
     \<lparr>port = 99, socketpath = ''/run/s3tp.socket'', startmanual = False, arg_leop = DONE,
      arg_battery_treshold = 30, arg_scripts = ''./scripts/''\<rparr>"

definition Satellite_new :: "arguments \<Rightarrow> bool \<Rightarrow> leop_seq \<Rightarrow> satellite" where
  "Satellite_new args enforced0 leop0 =
     (let st = State_new enforced0 leop0;
          st = st\<lparr>manualmode := startmanual args\<rparr>;
          st = st\<lparr>battery_treshold := arg_battery_treshold args\<rparr>;
          st = st\<lparr>eps := (eps st)\<lparr>battery_level := arg_battery_treshold args\<rparr>\<rparr>;
          st = st\<lparr>leop := arg_leop args\<rparr>
      in \<lparr>current_state = st, actions = Map.empty, next_id = 0, scripts = arg_scripts args,
          spawn_log = [], replies = []\<rparr>)"

subsection \<open>The table of running actions\<close>

definition add_action :: "action \<Rightarrow> satellite \<Rightarrow> id \<times> satellite" where
  "add_action a s =
     (next_id s,
      s\<lparr>actions := (if next_id s \<in> dom (actions s) then actions s
                    else (actions s)(next_id s \<mapsto> a)),
        next_id := Suc (next_id s)\<rparr>)"

definition get_action :: "id \<Rightarrow> satellite \<Rightarrow> action option" where
  "get_action i s = actions s i"

definition remove_action :: "id \<Rightarrow> satellite \<Rightarrow> satellite" where
  "remove_action i s =
     (if actions s i \<noteq> None then s\<lparr>actions := (actions s)(i := None)\<rparr> else s)"

subsection \<open>When an action is done\<close>

text \<open>
  \<open>satellite_done\<close> is the callback that \<open>on_event\<close> passes to \<open>perform\<close>; the callbacks of
  the derived classes run before it.
\<close>

definition satellite_done :: "id \<Rightarrow> bool \<Rightarrow> satellite \<Rightarrow> satellite" where
  "satellite_done i success s = remove_action i s"

definition EnterManualMode_done :: "handler \<Rightarrow> id \<Rightarrow> bool \<Rightarrow> satellite \<Rightarrow> satellite outcome" where
  "EnterManualMode_done oe i success s = Inr (satellite_done i success s)"

definition EnterSafeMode_done :: "handler \<Rightarrow> id \<Rightarrow> bool \<Rightarrow> satellite \<Rightarrow> satellite outcome" where
  "EnterSafeMode_done oe i success s =
     and_then (if success then Inr s else oe (SafeModeSignal 0) s)
       (\<lambda>s. Inr (satellite_done i success s))"

definition FinishLEOP_done :: "handler \<Rightarrow> id \<Rightarrow> bool \<Rightarrow> satellite \<Rightarrow> satellite outcome" where
  "FinishLEOP_done oe i success s = Inr (satellite_done i success s)"

definition LeaveManualMode_done :: "handler \<Rightarrow> id \<Rightarrow> bool \<Rightarrow> satellite \<Rightarrow> satellite outcome" where
  "LeaveManualMode_done oe i success s =
     and_then
       (if safemode (current_state s) \<noteq> 0
        then oe (SafeModeReq True) (s\<lparr>current_state := (current_state s)\<lparr>safemode := 0\<rparr>\<rparr>)
        else Inr s)
       (\<lambda>s. Inr (satellite_done i success s))"

definition LeaveSafeMode_done :: "handler \<Rightarrow> id \<Rightarrow> bool \<Rightarrow> satellite \<Rightarrow> satellite outcome" where
  "LeaveSafeMode_done oe i success s = Inr (satellite_done i success s)"

definition TriggerDetumbling_done :: "handler \<Rightarrow> id \<Rightarrow> bool \<Rightarrow> satellite \<Rightarrow> satellite outcome" where
  "TriggerDetumbling_done oe i success s =
     and_then (if success then oe (ADCSreqSignal DETUMB) s else Inr s)
       (\<lambda>s. Inr (satellite_done i success s))"

definition TriggerMeasuring_done :: "handler \<Rightarrow> id \<Rightarrow> bool \<Rightarrow> satellite \<Rightarrow> satellite outcome" where
  "TriggerMeasuring_done oe i success s =
     and_then (if success then oe (PayloadSignal MEASURING) s else Inr s)
       (\<lambda>s. Inr (satellite_done i success s))"

definition TriggerSunpointing_done :: "handler \<Rightarrow> id \<Rightarrow> bool \<Rightarrow> satellite \<Rightarrow> satellite outcome" where
  "TriggerSunpointing_done oe i success s =
     and_then (if success then oe (ADCSreqSignal SUN) s else Inr s)
       (\<lambda>s. Inr (satellite_done i success s))"

definition action_done :: "handler \<Rightarrow> action_kind \<Rightarrow> id \<Rightarrow> bool \<Rightarrow> satellite \<Rightarrow> satellite outcome" where
  "action_done oe k =
     (case k of
        PlainShell \<Rightarrow> (\<lambda>i success s. Inr (satellite_done i success s))
      | EnterManualMode \<Rightarrow> EnterManualMode_done oe
      | EnterSafeMode _ \<Rightarrow> EnterSafeMode_done oe
      | FinishLEOP \<Rightarrow> FinishLEOP_done oe
      | LeaveManualMode \<Rightarrow> LeaveManualMode_done oe
      | LeaveSafeMode \<Rightarrow> LeaveSafeMode_done oe
      | TriggerDetumbling \<Rightarrow> TriggerDetumbling_done oe
      | TriggerMeasuring \<Rightarrow> TriggerMeasuring_done oe
      | TriggerSunpointing \<Rightarrow> TriggerSunpointing_done oe)"

text \<open>
  The exit callback that \<open>ShellCommand::perform\<close> gives its process: the request behind
  the command hears the exit code, then the action's own callback runs.
\<close>

definition ShellCommand_exited :: "handler \<Rightarrow> id \<Rightarrow> int \<Rightarrow> satellite \<Rightarrow> satellite outcome" where
  "ShellCommand_exited oe i code s =
     (case actions s i of
        None \<Rightarrow> Inl UseAfterFree
      | Some a \<Rightarrow>
          action_done oe (kind a) i (code = 0)
            (s\<lparr>replies := replies s @
                 (case request a of None \<Rightarrow> [] | Some m \<Rightarrow> ctl_done m (exit_text code))\<rparr>))"

subsection \<open>Performing an action\<close>

text \<open>
  \<open>ShellCommand::perform\<close>. When \<open>uv_spawn\<close> fails, the process reports its exit from
  inside its constructor; by the time the constructor returns, the done callback has
  removed the action, and the assignment to its field \<open>process\<close> writes freed memory.
\<close>

definition ShellCommand_perform :: "spawner \<Rightarrow> handler \<Rightarrow> id \<Rightarrow> satellite \<Rightarrow> satellite outcome" where
  "ShellCommand_perform U oe i s =
     (case actions s i of
        None \<Rightarrow> Inl UseAfterFree
      | Some a \<Rightarrow>
          let a = set_default_prefix (scripts s) a;
              line = cmdprefix a @ command a;
              r = U (spawn_log s) line;
              (p, exited) = Process_new r line (action_is_s3tp a);
              s = s\<lparr>actions := (actions s)(i \<mapsto> a), spawn_log := spawn_log s @ [(line, r)]\<rparr>
          in and_then (if exited then ShellCommand_exited oe i (exit_code p) s else Inr s)
               (\<lambda>s. case actions s i of
                      None \<Rightarrow> Inl UseAfterFree
                    | Some a \<Rightarrow> Inr (s\<lparr>actions := (actions s)(i \<mapsto> a\<lparr>child := Some p\<rparr>)\<rparr>)))"

definition EnterManualMode_perform :: "spawner \<Rightarrow> handler \<Rightarrow> id \<Rightarrow> satellite \<Rightarrow> satellite outcome" where
  "EnterManualMode_perform U oe i s =
     and_then (oe (ManualModeSignal True) s) (ShellCommand_perform U oe i)"

definition EnterSafeMode_perform ::
    "spawner \<Rightarrow> handler \<Rightarrow> u8 \<Rightarrow> id \<Rightarrow> satellite \<Rightarrow> satellite outcome" where
  "EnterSafeMode_perform U oe reason i s =
     and_then (oe (SafeModeSignal reason) s)
       (\<lambda>s. and_then (oe (ManeuverModeSignal False) s) (ShellCommand_perform U oe i))"

definition FinishLEOP_perform :: "spawner \<Rightarrow> handler \<Rightarrow> id \<Rightarrow> satellite \<Rightarrow> satellite outcome" where
  "FinishLEOP_perform U oe i s =
     and_then (oe (LEOPSignal DONE) s) (ShellCommand_perform U oe i)"

definition LeaveManualMode_perform :: "spawner \<Rightarrow> handler \<Rightarrow> id \<Rightarrow> satellite \<Rightarrow> satellite outcome" where
  "LeaveManualMode_perform U oe i s =
     and_then (oe (ManualModeSignal False) s) (ShellCommand_perform U oe i)"

definition LeaveSafeMode_perform :: "spawner \<Rightarrow> handler \<Rightarrow> id \<Rightarrow> satellite \<Rightarrow> satellite outcome" where
  "LeaveSafeMode_perform U oe i s =
     and_then (oe (SafeModeSignal 0) s) (ShellCommand_perform U oe i)"

definition TriggerDetumbling_perform :: "spawner \<Rightarrow> handler \<Rightarrow> id \<Rightarrow> satellite \<Rightarrow> satellite outcome" where
  "TriggerDetumbling_perform U oe i s = ShellCommand_perform U oe i s"

definition TriggerMeasuring_perform :: "spawner \<Rightarrow> handler \<Rightarrow> id \<Rightarrow> satellite \<Rightarrow> satellite outcome" where
  "TriggerMeasuring_perform U oe i s = ShellCommand_perform U oe i s"

definition TriggerSunpointing_perform :: "spawner \<Rightarrow> handler \<Rightarrow> id \<Rightarrow> satellite \<Rightarrow> satellite outcome" where
  "TriggerSunpointing_perform U oe i s = ShellCommand_perform U oe i s"

definition perform :: "spawner \<Rightarrow> handler \<Rightarrow> action_kind \<Rightarrow> id \<Rightarrow> satellite \<Rightarrow> satellite outcome" where
  "perform U oe k =
     (case k of
        PlainShell \<Rightarrow> ShellCommand_perform U oe
      | EnterManualMode \<Rightarrow> EnterManualMode_perform U oe
      | EnterSafeMode reason \<Rightarrow> EnterSafeMode_perform U oe reason
      | FinishLEOP \<Rightarrow> FinishLEOP_perform U oe
      | LeaveManualMode \<Rightarrow> LeaveManualMode_perform U oe
      | LeaveSafeMode \<Rightarrow> LeaveSafeMode_perform U oe
      | TriggerDetumbling \<Rightarrow> TriggerDetumbling_perform U oe
      | TriggerMeasuring \<Rightarrow> TriggerMeasuring_perform U oe
      | TriggerSunpointing \<Rightarrow> TriggerSunpointing_perform U oe)"

subsection \<open>Handling an event\<close>

text \<open>The loop of \<open>on_event\<close> over the actions that the table asks for.\<close>

fun run_actions :: "spawner \<Rightarrow> handler \<Rightarrow> action list \<Rightarrow> satellite \<Rightarrow> satellite outcome" where
  "run_actions U oe [] s = Inr s"
| "run_actions U oe (a # as) s =
     (let (i, s) = add_action a s
      in case get_action i s of
           None \<Rightarrow> Inl NullDeref
         | Some a' \<Rightarrow> and_then (perform U oe (kind a') i s) (run_actions U oe as))"

definition on_event_body :: "spawner \<Rightarrow> handler \<Rightarrow> handler" where
  "on_event_body U oe ev s =
     (let s = (if is_fact ev then s\<lparr>current_state := update ev (current_state s)\<rparr> else s);
          target_state = state_copy (current_state s);
          target_state = (if \<not> is_fact ev then update ev target_state else target_state);
          (st, acts) = transform_to (current_state s) target_state
      in run_actions U oe acts (s\<lparr>current_state := st\<rparr>))"

fun on_event :: "spawner \<Rightarrow> nat \<Rightarrow> handler" where
  "on_event U 0 ev s = Inl StackOverflow"
| "on_event U (Suc d) ev s = on_event_body U (on_event U d) ev s"

text \<open>
  A libuv exit notification for the process of action \<open>i\<close>, delivered by the event loop:
  the process records it and, unless it died of \<open>SIGTERM\<close>, calls its exit callback.
\<close>

definition process_exit :: "handler \<Rightarrow> id \<Rightarrow> int \<Rightarrow> int \<Rightarrow> satellite \<Rightarrow> satellite outcome" where
  "process_exit oe i status sig s =
     (case actions s i of
        None \<Rightarrow> Inl UseAfterFree
      | Some a \<Rightarrow>
          (case child a of
             None \<Rightarrow> Inl NullDeref
           | Some p \<Rightarrow>
               and_then (exit_cb status sig p)
                 (\<lambda>(p, run).
                    let s = s\<lparr>actions := (actions s)(i \<mapsto> a\<lparr>child := Some p\<rparr>)\<rparr>
                    in if run then ShellCommand_exited oe i (exit_code p) s else Inr s)))"

lemmas perform_defs =
  EnterManualMode_perform_def EnterSafeMode_perform_def FinishLEOP_perform_def
  LeaveManualMode_perform_def LeaveSafeMode_perform_def TriggerDetumbling_perform_def
  TriggerMeasuring_perform_def TriggerSunpointing_perform_def

lemmas done_defs =
  EnterManualMode_done_def EnterSafeMode_done_def FinishLEOP_done_def LeaveManualMode_done_def
  LeaveSafeMode_done_def TriggerDetumbling_done_def TriggerMeasuring_done_def
  TriggerSunpointing_done_def

text \<open>The two ways \<open>ShellCommand::perform\<close> can go.\<close>

definition launched :: "id \<Rightarrow> action \<Rightarrow> satellite \<Rightarrow> int \<Rightarrow> satellite" where
  "launched i a s r =
     s\<lparr>actions := (actions s)(i \<mapsto> set_default_prefix (scripts s) a),
       spawn_log := spawn_log s @ [(command_line (scripts s) a, r)]\<rparr>"

definition new_child :: "action \<Rightarrow> satellite \<Rightarrow> int \<Rightarrow> process" where
  "new_child a s r = fst (Process_new r (command_line (scripts s) a) (action_is_s3tp a))"

lemma action_is_s3tp_prefix [simp]:
  "action_is_s3tp (set_default_prefix path a) = action_is_s3tp a"
  by (simp add: action_is_s3tp_def)

lemma shell_perform_ok:
  assumes "actions s i = Some a" and "U (spawn_log s) (command_line (scripts s) a) = 0"
  shows "ShellCommand_perform U oe i s =
    Inr ((launched i a s 0)\<lparr>actions := (actions s)
      (i \<mapsto> (set_default_prefix (scripts s) a)\<lparr>child := Some (new_child a s 0)\<rparr>)\<rparr>)"
  using assms
  by (simp add: ShellCommand_perform_def Let_def launched_def new_child_def command_line_def
      Process_new_exited case_prod_beta)

lemma shell_perform_fail:
  assumes "actions s i = Some a" and "r = U (spawn_log s) (command_line (scripts s) a)"
    and "r \<noteq> 0"
  shows "ShellCommand_perform U oe i s =
    and_then (ShellCommand_exited oe i (- 1) (launched i a s r))
      (\<lambda>s'. case actions s' i of
              None \<Rightarrow> Inl UseAfterFree
            | Some b \<Rightarrow> Inr (s'\<lparr>actions := (actions s')(i \<mapsto> b\<lparr>child := Some (new_child a s r)\<rparr>)\<rparr>))"
proof -
  have "exit_code (new_child a s r) = - 1"
    by (simp add: new_child_def Process_new_def Let_def)
  then show ?thesis
    using assms
    by (simp add: ShellCommand_perform_def Let_def launched_def new_child_def command_line_def
        Process_new_exited case_prod_beta cong: option.case_cong)
qed

subsection \<open>The interface of the action table\<close>

text \<open>
  What \<open>on_event\<close> and the done callback rely on: a new identifier denotes the action just
  added and nothing else, and removing an action removes only that one.
\<close>

locale action_table =
  fixes add :: "'a \<Rightarrow> 's \<Rightarrow> 'i \<times> 's"
    and get :: "'i \<Rightarrow> 's \<Rightarrow> 'a option"
    and remove :: "'i \<Rightarrow> 's \<Rightarrow> 's"
    and ok :: "'s \<Rightarrow> bool"
  assumes get_add: "ok s \<Longrightarrow> add a s = (i, s') \<Longrightarrow> get j s' = (if j = i then Some a else get j s)"
    and add_unused: "ok s \<Longrightarrow> add a s = (i, s') \<Longrightarrow> get i s = None"
    and ok_add: "ok s \<Longrightarrow> add a s = (i, s') \<Longrightarrow> ok s'"
    and get_remove: "get j (remove i s) = (if j = i then None else get j s)"
    and ok_remove: "ok s \<Longrightarrow> ok (remove i s)"
begin

lemma add_keeps: "ok s \<Longrightarrow> add a s = (i, s') \<Longrightarrow> get j s = Some b \<Longrightarrow> get j s' = Some b"
  using get_add add_unused by fastforce

lemma add_remove: "ok s \<Longrightarrow> add a s = (i, s') \<Longrightarrow> get j (remove i s') = get j s"
  by (simp add: get_remove get_add add_unused)

lemma add_distinct:
  "ok s \<Longrightarrow> add a s = (i, s') \<Longrightarrow> add b s' = (j, s'') \<Longrightarrow> i \<noteq> j"
  using get_add [of s a i s' i] add_unused [of s' b j s''] ok_add [of s a i s'] by auto

end

definition ids_fresh :: "satellite \<Rightarrow> bool" where
  "ids_fresh s \<longleftrightarrow> (\<forall>i\<in>dom (actions s). i < next_id s)"

lemma next_id_unused: "ids_fresh s \<Longrightarrow> actions s (next_id s) = None"
  unfolding ids_fresh_def by (metis domIff less_irrefl)

interpretation sat: action_table add_action get_action remove_action ids_fresh
proof
  show "get_action j s' = (if j = i then Some a else get_action j s)"
    if "ids_fresh s" "add_action a s = (i, s')" for s a i s' j
    using that next_id_unused [of s] by (auto simp: add_action_def get_action_def)
  show "get_action i s = None" if "ids_fresh s" "add_action a s = (i, s')" for s a i s'
    using that next_id_unused [of s] by (auto simp: add_action_def get_action_def)
  show "ids_fresh s'" if "ids_fresh s" "add_action a s = (i, s')" for s a i s'
    using that by (auto simp: add_action_def ids_fresh_def less_Suc_eq split: if_splits)
  show "get_action j (remove_action i s) = (if j = i then None else get_action j s)" for s i j
    by (auto simp: get_action_def remove_action_def)
  show "ids_fresh (remove_action i s)" if "ids_fresh s" for s i
    using that by (auto simp: ids_fresh_def remove_action_def)
qed

lemma add_action_fresh:
  "ids_fresh s \<Longrightarrow> add_action a s =
     (next_id s, s\<lparr>actions := (actions s)(next_id s \<mapsto> a), next_id := Suc (next_id s)\<rparr>)"
  using next_id_unused [of s] by (simp add: add_action_def domIff)

lemma run_actions_Cons:
  assumes "ids_fresh s"
  shows "run_actions U oe (a # as) s =
    and_then (perform U oe (kind a) (next_id s)
        (s\<lparr>actions := (actions s)(next_id s \<mapsto> a), next_id := Suc (next_id s)\<rparr>))
      (run_actions U oe as)"
  using assms by (simp add: add_action_fresh get_action_def)

end
