(* ===== verification/Reentrancy.thy ===== *)
theory Reentrancy
  imports Satellite
begin

text \<open>
  Re-entrant event handling. Actions are clients of \<open>Satellite::on_event\<close>: they emit
  events while they are performed and when they are done. The interface between the two
  is stated as locales: what the handler promises about an invariant of the satellite,
  what makes a predicate such an invariant, and what then holds of every operation of
  the actions and of \<open>on_event\<close> itself, at every depth of the call stack.
\<close>

subsection \<open>Events and actions that the program produces\<close>

text \<open>
  The reasons for safemode are 1, 2 and 3, with 0 for leaving it; that the payload daemon
  wants to measure is only ever a request. An action in the table has one of the reasons
  and a well-formed process.
\<close>

definition admissible :: "event \<Rightarrow> bool" where
  "admissible ev =
     (case ev of
        SafeModeSignal r \<Rightarrow> r \<le> 3
      | PayloadSignal p \<Rightarrow> p \<noteq> WANTMEASURE
      | _ \<Rightarrow> True)"

definition action_ok :: "action \<Rightarrow> bool" where
  "action_ok a \<longleftrightarrow>
     (case kind a of EnterSafeMode r \<Rightarrow> r = 1 \<or> r = 2 \<or> r = 3 | _ \<Rightarrow> True) \<and>
     (case child a of None \<Rightarrow> True | Some p \<Rightarrow> process_wf p)"

lemma child_new [simp]:
  "child (ShellCommand_new k c r) = None" "child (ShellCommand_new_prefix c p r) = None"
  "child EnterManualMode_new = None" "child (EnterSafeMode_new u) = None"
  "child FinishLEOP_new = None" "child LeaveManualMode_new = None"
  "child LeaveSafeMode_new = None" "child TriggerDetumbling_new = None"
  "child TriggerMeasuring_new = None" "child TriggerSunpointing_new = None"
  by (simp_all add: action_new_defs)

lemma admissible_simps [simp]:
  "admissible (SafeModeSignal r) \<longleftrightarrow> r \<le> 3" "admissible (PayloadSignal p) \<longleftrightarrow> p \<noteq> WANTMEASURE"
  "admissible (ADCSSignal a)" "admissible (ADCSreqSignal a)" "admissible (EPSSignal b)"
  "admissible (LEOPReq l)" "admissible (LEOPSignal l)" "admissible (ManeuverModeSignal m)"
  "admissible (ManualModeReq m)" "admissible (ManualModeSignal m)" "admissible (PayloadReq q)"
  "admissible (SafeModeReq m)" "admissible (THMSignal t)" "admissible (Control c)"
  by (simp_all add: admissible_def)

lemma action_ok_request_rules: "a \<in> set (request_rules this target) \<Longrightarrow> action_ok a"
  by (auto simp: request_rules_def action_ok_def split: if_splits)

lemma action_ok_auto_rules: "a \<in> set (auto_rules w s) \<Longrightarrow> action_ok a"
  by (auto simp: auto_rules_def action_ok_def emergency_reason_def split: if_splits)

lemma action_ok_transform_to:
  assumes "transform_to this target = (st, acts)" and "a \<in> set acts"
  shows "action_ok a"
proof -
  from assms consider "a \<in> set (Computer_transform_to (computer this) (computer target))"
    | "a \<in> set (request_rules this target)"
    | "a \<in> set (auto_rules (daemon (pl target)) (leop_shift this target))"
    by (auto simp: transform_to_split)
  then show ?thesis
  proof cases
    case 1
    then show ?thesis by (auto simp: Computer_transform_to_def action_ok_def)
  next
    case 2
    then show ?thesis by (rule action_ok_request_rules)
  next
    case 3
    then show ?thesis by (rule action_ok_auto_rules)
  qed
qed

subsection \<open>The interfaces\<close>

text \<open>A predicate that the steps outside the handler keep.\<close>

locale satellite_invariant =
  fixes I :: "satellite \<Rightarrow> bool"
  assumes I_add: "I s \<Longrightarrow> action_ok a \<Longrightarrow> I (snd (add_action a s))"
    and I_remove: "I s \<Longrightarrow> I (remove_action i s)"
    and I_touch: "I s \<Longrightarrow> actions s i = Some a \<Longrightarrow> kind b = kind a \<Longrightarrow> action_ok b \<Longrightarrow>
      I (s\<lparr>actions := (actions s)(i \<mapsto> b)\<rparr>)"
    and I_spawn: "I s \<Longrightarrow> I (s\<lparr>spawn_log := l\<rparr>)"
    and I_reply: "I s \<Longrightarrow> I (s\<lparr>replies := rs\<rparr>)"
    and I_fact: "I s \<Longrightarrow> is_fact ev \<Longrightarrow> admissible ev \<Longrightarrow>
      I (s\<lparr>current_state := update ev (current_state s)\<rparr>)"
    and I_leop: "I s \<Longrightarrow> I (s\<lparr>current_state := leop_shift (current_state s) t\<rparr>)"
    and I_clear: "I s \<Longrightarrow> I (s\<lparr>current_state := (current_state s)\<lparr>safemode := 0\<rparr>\<rparr>)"
    and I_kind: "I s \<Longrightarrow> actions s i = Some a \<Longrightarrow> action_ok a"

text \<open>What an action may assume of the handler it calls.\<close>

locale event_sink =
  fixes oe :: handler and J :: "satellite \<Rightarrow> bool"
  assumes sink: "J s \<Longrightarrow> admissible ev \<Longrightarrow> oe ev s = Inr s' \<Longrightarrow> J s'"

locale sink_client = satellite_invariant I + event_sink oe I
  for oe :: handler and I :: "satellite \<Rightarrow> bool"
begin

lemmas after_sink = sink [rotated 2]

lemma done_inv:
  assumes "I s" and "action_done oe k i success s = Inr s'"
  shows "I s'"
  using assms
  by (cases k)
    (auto simp: action_done_def done_defs satellite_done_def outcome_simps
      intro!: I_remove intro: after_sink I_clear split: if_splits)

lemma exited_inv:
  assumes "I s" and "ShellCommand_exited oe i code s = Inr s'"
  shows "I s'"
  using assms by (auto simp: ShellCommand_exited_def split: option.splits dest: I_reply intro: done_inv)

lemma shell_perform_inv:
  assumes "I s" and "ShellCommand_perform U oe i s = Inr s'"
  shows "I s'"
proof -
  from assms(2) obtain a where a: "actions s i = Some a"
    by (auto simp: ShellCommand_perform_def split: option.splits)
  define r where "r = U (spawn_log s) (command_line (scripts s) a)"
  have ok: "action_ok (set_default_prefix (scripts s) a)"
    using I_kind [OF assms(1) a] by (simp add: action_ok_def set_default_prefix_def)
  have touch: "I (launched i a s r)"
    using I_spawn [OF I_touch [OF assms(1) a, of "set_default_prefix (scripts s) a"]] ok
    by (simp add: launched_def)
  show ?thesis
  proof (cases "r = 0")
    case True
    let ?b = "(set_default_prefix (scripts s) a)\<lparr>child := Some (new_child a s 0)\<rparr>"
    have "s' = (launched i a s r)\<lparr>actions := (actions (launched i a s r))(i \<mapsto> ?b)\<rparr>"
      using assms(2) a True by (simp add: shell_perform_ok r_def launched_def)
    moreover have "I ((launched i a s r)\<lparr>actions := (actions (launched i a s r))(i \<mapsto> ?b)\<rparr>)"
      using touch
      by (rule I_touch [where a = "set_default_prefix (scripts s) a"])
        (use ok in \<open>simp_all add: launched_def action_ok_def new_child_def Process_new_wf\<close>)
    ultimately show ?thesis by simp
  next
    case False
    from assms(2) obtain s2 b where "ShellCommand_exited oe i (- 1) (launched i a s r) = Inr s2"
      and b: "actions s2 i = Some b"
      and s': "s' = s2\<lparr>actions := (actions s2)(i \<mapsto> b\<lparr>child := Some (new_child a s r)\<rparr>)\<rparr>"
      by (auto simp: shell_perform_fail [where U = U, OF a r_def False] outcome_simps split: option.splits)
    then have "I s2"
      using touch by (auto intro: exited_inv)
    then show ?thesis
      unfolding s' using b
      by (rule I_touch)
        (use I_kind [OF \<open>I s2\<close> b] in \<open>simp_all add: action_ok_def new_child_def Process_new_wf\<close>)
  qed
qed

lemma emit_then:
  assumes "and_then (oe ev s) f = Inr s'" and "I s" and "admissible ev"
    and "\<And>x. f x = Inr s' \<Longrightarrow> I x \<Longrightarrow> I s'"
  shows "I s'"
  using assms by (auto simp: outcome_simps intro: sink)

lemma perform_inv:
  assumes "I s" and "case k of EnterSafeMode r \<Rightarrow> r \<le> 3 | _ \<Rightarrow> True"
    and "perform U oe k i s = Inr s'"
  shows "I s'"
  using assms
  by (cases k)
    (auto simp: perform_def perform_defs elim!: emit_then shell_perform_inv [rotated])

lemma run_actions_inv:
  assumes "I s" and "\<forall>a\<in>set as. action_ok a" and "run_actions U oe as s = Inr s'"
  shows "I s'"
  using assms
proof (induction as arbitrary: s)
  case Nil
  then show ?case by simp
next
  case (Cons a as)
  obtain i s1 where add: "add_action a s = (i, s1)"
    by force
  with Cons.prems(1,2) I_add [of s a] have i1: "I s1"
    by simp
  from Cons.prems(3) add obtain b s2 where b: "get_action i s1 = Some b"
    and p: "perform U oe (kind b) i s1 = Inr s2" and rest: "run_actions U oe as s2 = Inr s'"
    by (auto simp: outcome_simps split: option.splits)
  have "action_ok b"
    using i1 b by (auto simp: get_action_def intro: I_kind)
  then have "case kind b of EnterSafeMode r \<Rightarrow> r \<le> 3 | _ \<Rightarrow> True"
    by (auto simp: action_ok_def split: action_kind.splits)
  from i1 this p have "I s2"
    by (rule perform_inv)
  then show ?case
    using Cons.prems(2) rest by (auto intro: Cons.IH)
qed

lemma body_inv:
  assumes "I s" and "admissible ev" and "on_event_body U oe ev s = Inr s'"
  shows "I s'"
proof -
  define s1 where
    "s1 = (if is_fact ev then s\<lparr>current_state := update ev (current_state s)\<rparr> else s)"
  define target where
    "target = (if \<not> is_fact ev then update ev (current_state s1) else current_state s1)"
  obtain st acts where tr: "transform_to (current_state s1) target = (st, acts)"
    by force
  have st: "st = leop_shift (current_state s1) target"
    using tr by (simp add: transform_to_split)
  have "I s1"
    using assms(1,2) by (simp add: s1_def I_fact)
  then have "I (s1\<lparr>current_state := st\<rparr>)"
    unfolding st by (rule I_leop)
  moreover have "\<forall>a\<in>set acts. action_ok a"
    using tr action_ok_transform_to by blast
  moreover have "run_actions U oe acts (s1\<lparr>current_state := st\<rparr>) = Inr s'"
    using assms(3) tr
    by (cases "is_fact ev") (simp_all add: on_event_body_def state_copy_def s1_def target_def)
  ultimately show ?thesis
    by (rule run_actions_inv)
qed

lemma process_exit_inv:
  assumes "I s" and "process_exit oe i status sig s = Inr s'"
  shows "I s'"
proof -
  from assms(2) obtain a p q run where a: "actions s i = Some a" and p: "child a = Some p"
    and q: "exit_cb status sig p = Inr (q, run)"
    and s': "(if run then ShellCommand_exited oe i (exit_code q)
                (s\<lparr>actions := (actions s)(i \<mapsto> a\<lparr>child := Some q\<rparr>)\<rparr>)
              else Inr (s\<lparr>actions := (actions s)(i \<mapsto> a\<lparr>child := Some q\<rparr>)\<rparr>)) = Inr s'"
    by (auto simp: process_exit_def outcome_simps Let_def split: option.splits)
  have "I (s\<lparr>actions := (actions s)(i \<mapsto> a\<lparr>child := Some q\<rparr>)\<rparr>)"
    using assms(1) a
    by (rule I_touch)
      (use I_kind [OF assms(1) a] p q exit_cb_yields [of p status sig] in \<open>simp_all add: action_ok_def\<close>)
  with s' show ?thesis
    by (auto intro: exited_inv split: if_splits)
qed

end

text \<open>
  Every invariant of the steps is one of \<open>on_event\<close>: by induction on the depth, with the
  handler one level down as the sink of the level above.
\<close>

context satellite_invariant
begin

lemma on_event_inv:
  "I s \<Longrightarrow> admissible ev \<Longrightarrow> on_event U d ev s = Inr s' \<Longrightarrow> I s'"
proof (induction d arbitrary: s ev s')
  case 0
  then show ?case by simp
next
  case (Suc d)
  have "event_sink (on_event U d) I"
    by standard (rule Suc.IH)
  then have "sink_client (on_event U d) I"
    using satellite_invariant_axioms by (simp add: sink_client_def)
  from sink_client.body_inv [OF this] Suc.prems show ?case
    by simp
qed

lemma on_event_client: "sink_client (on_event U d) I"
  using satellite_invariant_axioms on_event_inv
  by (simp add: sink_client_def event_sink_def)

lemma process_exit_keeps:
  "I s \<Longrightarrow> process_exit (on_event U d) i status sig s = Inr s' \<Longrightarrow> I s'"
  by (rule sink_client.process_exit_inv [OF on_event_client])

end

subsection \<open>The invariants\<close>

text \<open>
  Between events the current state asks for nothing: the flag that forces safemode is
  clear, no command is queued, and the payload daemon's wish is not recorded.
\<close>

definition state_wf :: "state \<Rightarrow> bool" where
  "state_wf s \<longleftrightarrow>
     \<not> enforced_safemode s \<and> shell_commands (computer s) = [] \<and>
     safemode s \<le> 3 \<and> daemon (pl s) \<noteq> WANTMEASURE"

definition satellite_wf :: "satellite \<Rightarrow> bool" where
  "satellite_wf s \<longleftrightarrow>
     ids_fresh s \<and> state_wf (current_state s) \<and> (\<forall>a\<in>ran (actions s). action_ok a)"

text \<open>What the configuration fixes: the threshold and the two fields no fact writes.\<close>

definition config_is :: "u16 \<Rightarrow> bool \<Rightarrow> computer_component \<Rightarrow> satellite \<Rightarrow> bool" where
  "config_is t e c s \<longleftrightarrow>
     battery_treshold (current_state s) = t \<and> enforced_safemode (current_state s) = e \<and>
     computer (current_state s) = c \<and> (\<forall>a\<in>ran (actions s). action_ok a)"

lemma state_wf_fact:
  "state_wf s \<Longrightarrow> is_fact ev \<Longrightarrow> admissible ev \<Longrightarrow> state_wf (update ev s)"
  by (cases ev) (simp_all add: state_wf_def)

lemma state_wf_leop_shift: "state_wf s \<Longrightarrow> state_wf (leop_shift s t)"
  by (simp add: state_wf_def leop_shift_def)

lemma ran_add_action:
  "a \<in> ran (actions (snd (add_action b s))) \<Longrightarrow> a = b \<or> a \<in> ran (actions s)"
  by (auto simp: add_action_def ran_def split: if_splits)

lemma ran_remove_action: "a \<in> ran (actions (remove_action i s)) \<Longrightarrow> a \<in> ran (actions s)"
  by (auto simp: remove_action_def ran_def split: if_splits)

lemma ran_touch_ok:
  assumes "\<forall>a\<in>ran (actions s). action_ok a" and "action_ok b"
  shows "\<forall>a\<in>ran ((actions s)(i \<mapsto> b)). action_ok a"
proof
  fix c
  assume "c \<in> ran ((actions s)(i \<mapsto> b))"
  then have "c = b \<or> c \<in> ran (actions s)"
    by (auto simp: ran_def split: if_splits)
  with assms show "action_ok c"
    by blast
qed

lemma remove_action_state [simp]: "current_state (remove_action i s) = current_state s"
  by (simp add: remove_action_def)

lemma add_action_state [simp]: "current_state (snd (add_action a s)) = current_state s"
  by (simp add: add_action_def)

interpretation wf: satellite_invariant satellite_wf
proof
  fix s i a b ev t l rs
  assume wf: "satellite_wf s"
  show "satellite_wf (snd (add_action a s))" if "action_ok a"
    using wf that sat.ok_add [of s a "fst (add_action a s)" "snd (add_action a s)"]
    by (auto simp: satellite_wf_def dest: ran_add_action)
  show "satellite_wf (remove_action i s)"
    using wf by (auto simp: satellite_wf_def sat.ok_remove dest: ran_remove_action)
  show "satellite_wf (s\<lparr>actions := (actions s)(i \<mapsto> b)\<rparr>)"
    if "actions s i = Some a" "kind b = kind a" "action_ok b"
    using wf that ran_touch_ok [of s b i] by (auto simp: satellite_wf_def ids_fresh_def)
  show "satellite_wf (s\<lparr>spawn_log := l\<rparr>)" "satellite_wf (s\<lparr>replies := rs\<rparr>)"
    using wf by (simp_all add: satellite_wf_def ids_fresh_def)
  show "satellite_wf (s\<lparr>current_state := update ev (current_state s)\<rparr>)"
    if "is_fact ev" "admissible ev"
    using wf that by (simp add: satellite_wf_def ids_fresh_def state_wf_fact)
  show "satellite_wf (s\<lparr>current_state := leop_shift (current_state s) t\<rparr>)"
    using wf by (simp add: satellite_wf_def ids_fresh_def state_wf_leop_shift)
  show "satellite_wf (s\<lparr>current_state := (current_state s)\<lparr>safemode := 0\<rparr>\<rparr>)"
    using wf by (simp add: satellite_wf_def ids_fresh_def state_wf_def)
  show "action_ok a" if "actions s i = Some a"
    using wf that by (auto simp: satellite_wf_def intro: ranI)
qed

interpretation cfg: satellite_invariant "config_is t e c" for t e c
proof
  fix s i a b ev t' l rs
  assume cfg: "config_is t e c s"
  show "config_is t e c (snd (add_action a s))" if "action_ok a"
    using cfg that by (auto simp: config_is_def dest: ran_add_action)
  show "config_is t e c (remove_action i s)"
    using cfg by (auto simp: config_is_def dest: ran_remove_action)
  show "config_is t e c (s\<lparr>actions := (actions s)(i \<mapsto> b)\<rparr>)"
    if "actions s i = Some a" "kind b = kind a" "action_ok b"
    using cfg that ran_touch_ok [of s b i] by (simp add: config_is_def)
  show "config_is t e c (s\<lparr>spawn_log := l\<rparr>)" "config_is t e c (s\<lparr>replies := rs\<rparr>)"
    "config_is t e c (s\<lparr>current_state := (current_state s)\<lparr>safemode := 0\<rparr>\<rparr>)"
    using cfg by (simp_all add: config_is_def)
  show "config_is t e c (s\<lparr>current_state := update ev (current_state s)\<rparr>)"
    if "is_fact ev" "admissible ev"
    using cfg that by (simp add: config_is_def fact_frame)
  show "config_is t e c (s\<lparr>current_state := leop_shift (current_state s) t'\<rparr>)"
    using cfg by (simp add: config_is_def leop_shift_def)
  show "action_ok a" if "actions s i = Some a"
    using cfg that by (auto simp: config_is_def intro: ranI)
qed

interpretation wf_client: sink_client "on_event U d" satellite_wf for U d
  by (rule wf.on_event_client)

interpretation cfg_client: sink_client "on_event U d" "config_is t e c" for U d t e c
  by (rule cfg.on_event_client)

lemma Satellite_new_wf: "satellite_wf (Satellite_new args False leop0)"
  by (simp add: satellite_wf_def ids_fresh_def state_wf_def Satellite_new_def State_new_def
      Computer_new_def Payload_new_def)

subsection \<open>More stack never changes a result\<close>

text \<open>
  A handler that returns whatever another one returns makes every operation of the
  actions return whatever it did with the other.
\<close>

definition handler_le :: "handler \<Rightarrow> handler \<Rightarrow> bool" where
  "handler_le h h' \<longleftrightarrow> (\<forall>ev s. refines (h ev s) (h' ev s))"

lemma handler_leD: "handler_le h h' \<Longrightarrow> refines (h ev s) (h' ev s)"
  by (simp add: handler_le_def)

lemma action_done_mono:
  "handler_le h h' \<Longrightarrow> refines (action_done h k i b s) (action_done h' k i b s)"
  by (cases k)
    (auto simp: action_done_def done_defs intro: refines_and_then handler_leD)

lemma shell_exited_mono:
  "handler_le h h' \<Longrightarrow> refines (ShellCommand_exited h i code s) (ShellCommand_exited h' i code s)"
  by (auto simp: ShellCommand_exited_def action_done_mono split: option.split)

lemma shell_perform_mono:
  "handler_le h h' \<Longrightarrow> refines (ShellCommand_perform U h i s) (ShellCommand_perform U h' i s)"
  by (auto simp: ShellCommand_perform_def Let_def split: option.split prod.split
      intro!: refines_and_then shell_exited_mono)

lemma perform_mono:
  "handler_le h h' \<Longrightarrow> refines (perform U h k i s) (perform U h' k i s)"
  by (cases k)
    (simp_all add: perform_def perform_defs refines_and_then handler_leD shell_perform_mono)

lemma run_actions_mono:
  "handler_le h h' \<Longrightarrow> refines (run_actions U h as s) (run_actions U h' as s)"
  by (induction as arbitrary: s)
    (auto simp: Let_def split: option.split prod.split intro!: refines_and_then perform_mono)

lemma body_mono: "handler_le h h' \<Longrightarrow> handler_le (on_event_body U h) (on_event_body U h')"
  by (simp add: handler_le_def [of "on_event_body U h"] on_event_body_def Let_def
      case_prod_beta run_actions_mono)

lemma on_event_Suc: "on_event U (Suc d) = on_event_body U (on_event U d)"
  by (intro ext) simp

lemma on_event_handler_mono: "handler_le (on_event U d) (on_event U (Suc d))"
proof (induction d)
  case 0
  then show ?case by (simp add: handler_le_def)
next
  case (Suc d)
  from body_mono [OF this, of U] show ?case
    by (simp only: on_event_Suc)
qed

lemma on_event_mono:
  assumes "on_event U d ev s = Inr s'" and "d \<le> e"
  shows "on_event U e ev s = Inr s'"
  using assms(2,1)
proof (induction rule: dec_induct)
  case base
  then show ?case .
next
  case (step n)
  then show ?case
    using refinesD [OF handler_leD [OF on_event_handler_mono]] by blast
qed

end
