(* ===== verification/Settle.thy ===== *)
theory Settle
  imports Reentrancy
begin

text \<open>
  What \<open>Satellite::on_event\<close> amounts to. The nested events of a call are summarised by a
  flat specification on the satellite state: \<open>expected_state\<close> gives the state after the
  event and \<open>expected_scripts\<close> the command lines started, in their order. When every
  process can be spawned, three levels of the call stack implement that specification
  for every event.
\<close>

subsection \<open>The specification\<close>

text \<open>A state in which the table has nothing left to ask for between two events.\<close>

definition calm :: "state \<Rightarrow> bool" where
  "calm s \<longleftrightarrow> \<not> enforced_safemode s \<and> shell_commands (computer s) = []"

text \<open>In nominal operation an emergency is answered by safemode, which ends manoeuvres.\<close>

definition settle :: "state \<Rightarrow> state" where
  "settle s =
     (if nominal s
      then (case emergency_reason s of
              None \<Rightarrow> s
            | Some r \<Rightarrow> s\<lparr>safemode := r, maneuvermode := False\<rparr>)
      else s)"

fun expected_state :: "event \<Rightarrow> state \<Rightarrow> state" where
  "expected_state (ManualModeReq True) s = (settle s)\<lparr>manualmode := True\<rparr>"
| "expected_state (ManualModeReq False) s = settle (s\<lparr>manualmode := False\<rparr>)"
| "expected_state (SafeModeReq True) s =
     (if nominal s \<and> emergency s then settle s else s\<lparr>safemode := 3, maneuvermode := False\<rparr>)"
| "expected_state (SafeModeReq False) s = settle (s\<lparr>safemode := 0\<rparr>)"
| "expected_state (LEOPReq l) s = settle (s\<lparr>leop := l\<rparr>)"
| "expected_state (PayloadReq p) s = settle s"
| "expected_state (Control m) s = settle s"
| "expected_state ev s = settle (update ev s)"

definition auto_scripts :: "string \<Rightarrow> daemon_state \<Rightarrow> state \<Rightarrow> string list" where
  "auto_scripts path w s = map (command_line path) (auto_rules w s)"

fun expected_scripts :: "string \<Rightarrow> event \<Rightarrow> state \<Rightarrow> string list" where
  "expected_scripts path (ManualModeReq True) s =
     (if manualmode s then [] else [path @ ''enter_manualmode.sh''])
       @ auto_scripts path (daemon (pl s)) s"
| "expected_scripts path (ManualModeReq False) s =
     auto_scripts path (daemon (pl s)) (s\<lparr>manualmode := False\<rparr>)
       @ (if manualmode s then [path @ ''leave_manualmode.sh''] else [])"
| "expected_scripts path (SafeModeReq True) s =
     (path @ ''enter_safemode.sh'') # auto_scripts path (daemon (pl s)) s"
| "expected_scripts path (SafeModeReq False) s =
     auto_scripts path (daemon (pl s)) (s\<lparr>safemode := 0\<rparr>)
       @ (if safemode s = 0 then [] else [path @ ''leave_safemode.sh''])"
| "expected_scripts path (LEOPReq l) s =
     (if l = DONE \<and> leop s \<noteq> DONE
      then auto_scripts path (daemon (pl s)) (s\<lparr>leop := DONE\<rparr>)
        @ [path @ ''finish_leop.sh''] @ auto_scripts path (daemon (pl s)) s
      else auto_scripts path (daemon (pl s)) (s\<lparr>leop := l\<rparr>))"
| "expected_scripts path (PayloadReq p) s = auto_scripts path p s"
| "expected_scripts path (Control m) s =
     ctl_command (ctl m) # auto_scripts path (daemon (pl s)) s"
| "expected_scripts path ev s = auto_scripts path (daemon (pl (update ev s))) (update ev s)"

definition spawns_ok :: "spawner \<Rightarrow> bool" where
  "spawns_ok U \<longleftrightarrow> (\<forall>h line. U h line = 0)"

text \<open>
  \<open>progress X s ls st s'\<close>: from \<open>s\<close>, the command lines \<open>ls\<close> were started and the state is now
  \<open>st\<close>; the actions of \<open>s\<close> other than those in \<open>X\<close> are still there, untouched.
\<close>

definition progress :: "id set \<Rightarrow> satellite \<Rightarrow> string list \<Rightarrow> state \<Rightarrow> satellite \<Rightarrow> bool" where
  "progress X s ls st s' \<longleftrightarrow>
     current_state s' = st \<and> spawn_log s' = spawn_log s @ map (\<lambda>l. (l, 0)) ls \<and>
     scripts s' = scripts s \<and> replies s' = replies s \<and> ids_fresh s' \<and>
     (\<forall>i\<in>dom (actions s) - X. actions s' i = actions s i)"

subsection \<open>Progress\<close>

lemma progress_refl: "ids_fresh s \<Longrightarrow> progress X s [] (current_state s) s"
  by (simp add: progress_def)

lemma progress_from [simp]: "progress X (s\<lparr>current_state := c\<rparr>) = progress X s"
  by (intro ext) (simp add: progress_def)

lemma progress_trans:
  assumes "progress X s ls st s'" and "progress X s' ls' st' s''"
  shows "progress X s (ls @ ls') st' s''"
proof -
  have "actions s'' i = actions s i" if "i \<in> dom (actions s) - X" for i
  proof -
    have "actions s' i = actions s i"
      using assms(1) that by (simp add: progress_def)
    moreover from this have "i \<in> dom (actions s') - X"
      using that by auto
    ultimately show ?thesis
      using assms(2) by (simp add: progress_def)
  qed
  with assms show ?thesis
    by (simp add: progress_def)
qed

lemma progress_weaken: "progress {} s ls st s' \<Longrightarrow> progress X s ls st s'"
  by (simp add: progress_def)

lemma progress_keeps: "progress {} s ls st s' \<Longrightarrow> actions s i = Some a \<Longrightarrow> actions s' i = Some a"
  by (auto simp: progress_def domI)

lemma progress_state: "progress X s ls st s' \<Longrightarrow> current_state s' = st"
  by (simp add: progress_def)

lemma progress_fresh: "progress X s ls st s' \<Longrightarrow> ids_fresh s'"
  by (simp add: progress_def)

lemma progress_scripts: "progress X s ls st s' \<Longrightarrow> scripts s' = scripts s"
  by (simp add: progress_def)

lemmas progressD = progress_state progress_fresh progress_scripts

lemma shell_progress:
  assumes "spawns_ok U" and "ids_fresh s" and "actions s i = Some a"
  shows "yields (progress {i} s [command_line (scripts s) a] (current_state s))
    (ShellCommand_perform U oe i s)"
  using assms
  by (auto simp: shell_perform_ok spawns_ok_def progress_def launched_def ids_fresh_def)

text \<open>Adding an action and performing it is progress on the actions that were there before.\<close>

lemma added_progress:
  assumes "ids_fresh s"
    and "progress {next_id s}
      (s\<lparr>actions := (actions s)(next_id s \<mapsto> a), next_id := Suc (next_id s)\<rparr>) ls st s'"
  shows "progress {} s ls st s'"
  using assms next_id_unused [OF assms(1)]
  by (auto simp: progress_def)

subsection \<open>Effects of actions on the state\<close>

text \<open>
  The actions that the table fires by itself, and plain commands, change the state in
  one way only: entering safemode.
\<close>

definition simple :: "action \<Rightarrow> bool" where
  "simple a =
     (case kind a of
        PlainShell \<Rightarrow> True
      | EnterSafeMode r \<Rightarrow> r \<noteq> 0
      | TriggerDetumbling \<Rightarrow> True
      | TriggerMeasuring \<Rightarrow> True
      | TriggerSunpointing \<Rightarrow> True
      | _ \<Rightarrow> False)"

definition effect :: "action \<Rightarrow> state \<Rightarrow> state" where
  "effect a s =
     (case kind a of EnterSafeMode r \<Rightarrow> s\<lparr>safemode := r, maneuvermode := False\<rparr> | _ \<Rightarrow> s)"

lemma simple_auto_rules: "a \<in> set (auto_rules w s) \<Longrightarrow> simple a"
  by (auto simp: auto_rules_def simple_def emergency_reason_def split: if_splits)

lemma simple_commands: "a \<in> set (Computer_transform_to c t) \<Longrightarrow> simple a"
  by (auto simp: Computer_transform_to_def simple_def)

lemma fold_effect_commands: "fold effect (Computer_transform_to c t) s = s"
proof -
  have "fold effect (map (\<lambda>(c, req). ShellCommand_new_prefix c [] (Some req)) xs) s = s" for xs
    by (induction xs) (auto simp: effect_def)
  then show ?thesis by (simp add: Computer_transform_to_def)
qed

lemma fold_effect_auto:
  "fold effect (auto_rules w s) t =
     (case (if nominal s then emergency_reason s else None) of
        None \<Rightarrow> t
      | Some r \<Rightarrow> t\<lparr>safemode := r, maneuvermode := False\<rparr>)"
  by (auto simp: auto_rules_def effect_def split: option.split)

lemma fold_effect_settle: "fold effect (auto_rules w s) s = settle s"
  by (simp add: fold_effect_auto settle_def)

lemma auto_rules_not_nominal [simp]: "\<not> nominal s \<Longrightarrow> auto_rules w s = []"
  by (simp add: auto_rules_def)

lemma settle_not_nominal [simp]: "\<not> nominal s \<Longrightarrow> settle s = s"
  by (simp add: settle_def)

lemma settle_auto_nil: "auto_rules w s = [] \<Longrightarrow> settle s = s"
  by (auto simp: settle_def auto_rules_def split: option.splits)

lemma calm_simps [simp]:
  "calm (s\<lparr>safemode := r\<rparr>) = calm s" "calm (s\<lparr>maneuvermode := m\<rparr>) = calm s"
  "calm (s\<lparr>manualmode := m\<rparr>) = calm s" "calm (s\<lparr>leop := l\<rparr>) = calm s"
  by (simp_all add: calm_def)

lemma calm_fact: "is_fact ev \<Longrightarrow> calm (update ev s) = calm s"
  by (simp add: calm_def fact_frame)

lemma calm_effect [simp]: "calm (effect a s) = calm s"
  by (simp add: effect_def split: action_kind.split)

lemma transform_to_self:
  "calm s \<Longrightarrow> transform_to s s = (s, auto_rules (daemon (pl s)) s)"
  by (simp add: transform_to_split calm_def Computer_transform_to_def request_rules_def
      leop_shift_def)

subsection \<open>Handlers\<close>

text \<open>
  Two contracts between an action and the handler it emits events to. A quiet handler
  takes a fact over when the table then has nothing to do; a settling handler answers
  every fact as specified. The second gives the first.
\<close>

locale quiet_handler =
  fixes oe :: handler
  assumes quiet: "is_fact ev \<Longrightarrow> calm (current_state s) \<Longrightarrow> ids_fresh s \<Longrightarrow>
    auto_rules (daemon (pl (update ev (current_state s)))) (update ev (current_state s)) = [] \<Longrightarrow>
    yields (progress {} s [] (update ev (current_state s))) (oe ev s)"

locale settling_handler =
  fixes oe :: handler
  assumes settles: "is_fact ev \<Longrightarrow> calm (current_state s) \<Longrightarrow> ids_fresh s \<Longrightarrow>
    yields (progress {} s (expected_scripts (scripts s) ev (current_state s))
      (expected_state ev (current_state s))) (oe ev s)"

lemma expected_fact:
  assumes "is_fact ev"
  shows "expected_state ev s = settle (update ev s)"
    and "expected_scripts path ev s =
      auto_scripts path (daemon (pl (update ev s))) (update ev s)"
  using assms by (cases ev; simp)+

sublocale settling_handler \<subseteq> quiet_handler
proof
  fix ev s
  assume *: "is_fact ev" "calm (current_state s)" "ids_fresh s"
    and nil: "auto_rules (daemon (pl (update ev (current_state s)))) (update ev (current_state s)) = []"
  from settles [OF *] show "yields (progress {} s [] (update ev (current_state s))) (oe ev s)"
    by (simp add: expected_fact * auto_scripts_def nil settle_auto_nil [OF nil])
qed

context quiet_handler
begin

lemma enter_safemode_progress:
  assumes "spawns_ok U" and "calm (current_state s)" and "ids_fresh s"
    and "actions s i = Some a" and "r \<noteq> 0"
  shows "yields (progress {i} s [command_line (scripts s) a]
      ((current_state s)\<lparr>safemode := r, maneuvermode := False\<rparr>))
    (EnterSafeMode_perform U oe r i s)"
proof -
  let ?st = "(current_state s)\<lparr>safemode := r\<rparr>"
  have 1: "yields (progress {} s [] ?st) (oe (SafeModeSignal r) s)"
    using quiet [of "SafeModeSignal r" s] assms by (simp add: nominal_def)
  show ?thesis
    unfolding EnterSafeMode_perform_def
  proof (rule yields_and_then [OF 1])
    fix s1
    assume p1: "progress {} s [] ?st s1"
    then have s1: "current_state s1 = ?st" "ids_fresh s1"
      by (auto dest: progressD)
    have 2: "yields (progress {} s1 [] (?st\<lparr>maneuvermode := False\<rparr>)) (oe (ManeuverModeSignal False) s1)"
      using quiet [of "ManeuverModeSignal False" s1] s1 assms by (simp add: nominal_def)
    show "yields (progress {i} s [command_line (scripts s) a]
        ((current_state s)\<lparr>safemode := r, maneuvermode := False\<rparr>))
      (and_then (oe (ManeuverModeSignal False) s1) (ShellCommand_perform U oe i))"
    proof (rule yields_and_then [OF 2])
      fix s2
      assume "progress {} s1 [] (?st\<lparr>maneuvermode := False\<rparr>) s2"
      with p1 have p2: "progress {} s [] (?st\<lparr>maneuvermode := False\<rparr>) s2"
        by (auto dest: progress_trans)
      then have "ids_fresh s2" "actions s2 i = Some a" "current_state s2 = ?st\<lparr>maneuvermode := False\<rparr>"
        "scripts s2 = scripts s"
        using assms(4) by (auto dest: progressD progress_keeps)
      with shell_progress [OF assms(1), of s2 i a]
      have "yields (progress {i} s2 [command_line (scripts s) a] (?st\<lparr>maneuvermode := False\<rparr>))
        (ShellCommand_perform U oe i s2)"
        by simp
      then show "yields (progress {i} s [command_line (scripts s) a]
          ((current_state s)\<lparr>safemode := r, maneuvermode := False\<rparr>))
        (ShellCommand_perform U oe i s2)"
        by (rule yields_mono) (use progress_trans [OF progress_weaken [OF p2]] in fastforce)
    qed
  qed
qed

lemma perform_simple:
  assumes "spawns_ok U" and "calm (current_state s)" and "ids_fresh s"
    and "actions s i = Some a" and "simple a"
  shows "yields (progress {i} s [command_line (scripts s) a] (effect a (current_state s)))
    (perform U oe (kind a) i s)"
  using assms enter_safemode_progress [OF assms(1-4)] shell_progress [OF assms(1,3,4)]
  by (cases "kind a") (simp_all add: simple_def effect_def perform_def perform_defs)

lemma run_simple:
  assumes "spawns_ok U" and "calm (current_state s)" and "ids_fresh s"
    and "\<forall>a\<in>set as. simple a"
  shows "yields (progress {} s (map (command_line (scripts s)) as)
      (fold effect as (current_state s)))
    (run_actions U oe as s)"
  using assms(2-4)
proof (induction as arbitrary: s)
  case Nil
  then show ?case by (simp add: progress_refl)
next
  case (Cons a as)
  let ?s = "s\<lparr>actions := (actions s)(next_id s \<mapsto> a), next_id := Suc (next_id s)\<rparr>"
  have "ids_fresh ?s"
    using Cons.prems(2) sat.ok_add [of s a] by (simp add: add_action_fresh)
  then have p: "yields (progress {next_id s} ?s [command_line (scripts s) a]
      (effect a (current_state s))) (perform U oe (kind a) (next_id s) ?s)"
    using perform_simple [OF assms(1), of ?s "next_id s" a] Cons.prems by simp
  show ?case
    unfolding run_actions_Cons [OF Cons.prems(2)]
  proof (rule yields_and_then [OF p])
    fix s1
    assume "progress {next_id s} ?s [command_line (scripts s) a] (effect a (current_state s)) s1"
    then have p1: "progress {} s [command_line (scripts s) a] (effect a (current_state s)) s1"
      by (rule added_progress [OF Cons.prems(2)])
    then have "yields (progress {} s1 (map (command_line (scripts s)) as)
        (fold effect as (effect a (current_state s)))) (run_actions U oe as s1)"
      using Cons.IH [of s1] Cons.prems progressD [OF p1] by simp
    then show "yields (progress {} s (map (command_line (scripts s)) (a # as))
        (fold effect (a # as) (current_state s))) (run_actions U oe as s1)"
      by (rule yields_mono) (use progress_trans [OF p1] in fastforce)
  qed
qed

lemma body_settles:
  assumes "spawns_ok U"
  shows "settling_handler (on_event_body U oe)"
proof
  fix ev s
  assume *: "is_fact ev" "calm (current_state s)" "ids_fresh s"
  let ?st = "update ev (current_state s)"
  have tr: "transform_to ?st ?st = (?st, auto_rules (daemon (pl ?st)) ?st)"
    using * by (simp add: transform_to_self calm_fact)
  have "yields (progress {} (s\<lparr>current_state := ?st\<rparr>)
      (auto_scripts (scripts s) (daemon (pl ?st)) ?st) (settle ?st))
    (run_actions U oe (auto_rules (daemon (pl ?st)) ?st) (s\<lparr>current_state := ?st\<rparr>))"
    using run_simple [OF assms, of "s\<lparr>current_state := ?st\<rparr>" "auto_rules (daemon (pl ?st)) ?st"] *
    by (simp add: calm_fact ids_fresh_def simple_auto_rules auto_scripts_def fold_effect_settle)
  then show "yields (progress {} s (expected_scripts (scripts s) ev (current_state s))
      (expected_state ev (current_state s))) (on_event_body U oe ev s)"
    using * tr
    by (simp add: expected_fact on_event_body_def state_copy_def)
qed

end

subsection \<open>Requests\<close>

text \<open>
  The four actions that emit one event before they start their script, in front of a
  list of simple actions.
\<close>

definition announces :: "action_kind \<Rightarrow> event \<Rightarrow> bool" where
  "announces k ev \<longleftrightarrow>
     (k, ev) \<in> {(EnterManualMode, ManualModeSignal True), (LeaveManualMode, ManualModeSignal False),
                (LeaveSafeMode, SafeModeSignal 0), (FinishLEOP, LEOPSignal DONE)}"

lemma perform_announces:
  "announces k ev \<Longrightarrow> perform U oe k i s = and_then (oe ev s) (ShellCommand_perform U oe i)"
  by (auto simp: announces_def perform_def perform_defs)

lemma announces_fact: "announces k ev \<Longrightarrow> is_fact ev"
  by (auto simp: announces_def)

lemma calm_expected_fact: "is_fact ev \<Longrightarrow> calm (expected_state ev s) = calm s"
  by (simp add: expected_fact calm_fact settle_def split: option.split)

context settling_handler
begin

lemma announce_progress:
  assumes "spawns_ok U" and "calm (current_state s)" and "ids_fresh s"
    and "actions s i = Some a" and "announces (kind a) ev"
  shows "yields (progress {i} s
      (expected_scripts (scripts s) ev (current_state s) @ [command_line (scripts s) a])
      (expected_state ev (current_state s)))
    (perform U oe (kind a) i s)"
  unfolding perform_announces [OF assms(5)]
proof (rule yields_and_then [OF settles [OF announces_fact [OF assms(5)] assms(2,3)]])
  fix s1
  assume p: "progress {} s (expected_scripts (scripts s) ev (current_state s))
    (expected_state ev (current_state s)) s1"
  have "actions s1 i = Some a"
    using progress_keeps [OF p assms(4)] .
  from shell_progress [OF assms(1) progress_fresh [OF p] this]
  show "yields (progress {i} s
      (expected_scripts (scripts s) ev (current_state s) @ [command_line (scripts s) a])
      (expected_state ev (current_state s))) (ShellCommand_perform U oe i s1)"
    by (rule yields_mono) (use progress_trans [OF progress_weaken [OF p]] progressD [OF p] in simp)
qed

lemma run_announced:
  assumes "spawns_ok U" and "calm (current_state s)" and "ids_fresh s"
    and "announces (kind a) ev" and "\<forall>b\<in>set as. simple b"
  shows "yields (progress {} s
      (expected_scripts (scripts s) ev (current_state s) @ command_line (scripts s) a
        # map (command_line (scripts s)) as)
      (fold effect as (expected_state ev (current_state s))))
    (run_actions U oe (a # as) s)"
proof -
  let ?s = "s\<lparr>actions := (actions s)(next_id s \<mapsto> a), next_id := Suc (next_id s)\<rparr>"
  let ?ls = "expected_scripts (scripts s) ev (current_state s) @ [command_line (scripts s) a]"
  let ?st = "expected_state ev (current_state s)"
  have "ids_fresh ?s"
    using assms(3) sat.ok_add [of s a] by (simp add: add_action_fresh)
  then have p: "yields (progress {next_id s} ?s ?ls ?st) (perform U oe (kind a) (next_id s) ?s)"
    using announce_progress [OF assms(1), of ?s "next_id s" a ev] assms(2,4) by simp
  show ?thesis
    unfolding run_actions_Cons [OF assms(3)]
  proof (rule yields_and_then [OF p])
    fix s1
    assume "progress {next_id s} ?s ?ls ?st s1"
    then have p1: "progress {} s ?ls ?st s1"
      by (rule added_progress [OF assms(3)])
    have "calm ?st"
      using assms(2,4) by (simp add: calm_expected_fact announces_fact)
    then have "yields (progress {} s1 (map (command_line (scripts s)) as) (fold effect as ?st))
        (run_actions U oe as s1)"
      using run_simple [OF assms(1), of s1 as] assms(5) progressD [OF p1] by simp
    then show "yields (progress {} s
        (expected_scripts (scripts s) ev (current_state s) @ command_line (scripts s) a
          # map (command_line (scripts s)) as)
        (fold effect as ?st)) (run_actions U oe as s1)"
      by (rule yields_mono) (use progress_trans [OF p1] in fastforce)
  qed
qed

text \<open>What the table asks for when a request meets a calm state.\<close>

end

lemma leop_shift_same [simp]: "leop t = leop s \<Longrightarrow> leop_shift s t = s"
  by (simp add: leop_shift_def)

lemma transform_request:
  assumes "calm s"
  shows "transform_to s (s\<lparr>manualmode := m\<rparr>) =
      (s, (if m \<and> \<not> manualmode s then [EnterManualMode_new]
           else if \<not> m \<and> manualmode s then [LeaveManualMode_new] else [])
          @ auto_rules (daemon (pl s)) s)"
    and "transform_to s (s\<lparr>safemode := 1, enforced_safemode := True\<rparr>) =
      (s, EnterSafeMode_new 3 # auto_rules (daemon (pl s)) s)"
    and "transform_to s (s\<lparr>safemode := 0, enforced_safemode := True\<rparr>) =
      (s, (if safemode s = 0 then [] else [LeaveSafeMode_new]) @ auto_rules (daemon (pl s)) s)"
    and "transform_to s (s\<lparr>leop := l\<rparr>) =
      (if l = DONE then s else s\<lparr>leop := l\<rparr>,
       (if l = DONE \<and> leop s \<noteq> DONE then [FinishLEOP_new] else [])
          @ auto_rules (daemon (pl s)) (if l = DONE then s else s\<lparr>leop := l\<rparr>))"
    and "transform_to s (s\<lparr>pl := (pl s)\<lparr>daemon := p\<rparr>\<rparr>) = (s, auto_rules p s)"
    and "transform_to s (push_command c m' s) =
      (s, ShellCommand_new_prefix c [] (Some m') # auto_rules (daemon (pl s)) s)"
  using assms
  by (auto simp: transform_to_split calm_def Computer_transform_to_def request_rules_def
      push_command_def leop_shift_def)

lemma body_request:
  assumes "\<not> is_fact ev" and "transform_to (current_state s) (update ev (current_state s)) = (st, acts)"
  shows "on_event_body U oe ev s = run_actions U oe acts (s\<lparr>current_state := st\<rparr>)"
  using assms by (simp add: on_event_body_def state_copy_def)

lemma settle_manual [simp]: "manualmode s \<Longrightarrow> settle s = s" "manualmode (settle s) = manualmode s"
  by (simp_all add: settle_def nominal_def split: option.split)

lemma field_same:
  "manualmode s = m \<Longrightarrow> s\<lparr>manualmode := m\<rparr> = s"
  "safemode s = r \<Longrightarrow> s\<lparr>safemode := r\<rparr> = s"
  "leop s = l \<Longrightarrow> s\<lparr>leop := l\<rparr> = s"
  for s :: state
  by simp_all

lemma simple_auto: "\<forall>a\<in>set (auto_rules w s). simple a"
  by (simp add: simple_auto_rules)

context settling_handler
begin

lemma body_ManualModeReq:
  assumes "spawns_ok U" and "calm (current_state s)" and "ids_fresh s"
  shows "yields (progress {} s (expected_scripts (scripts s) (ManualModeReq m) (current_state s))
      (expected_state (ManualModeReq m) (current_state s))) (on_event_body U oe (ManualModeReq m) s)"
proof -
  let ?c = "current_state s" and ?A = "auto_rules (daemon (pl (current_state s))) (current_state s)"
  note run = run_announced [OF assms, where as = ?A, OF _ simple_auto]
  note simp = run_simple [OF assms, of ?A, OF simple_auto]
  consider "m" "\<not> manualmode ?c" | "\<not> m" "manualmode ?c" | "m = manualmode ?c"
    by blast
  then show ?thesis
  proof cases
    case 1
    have "(settle ?c)\<lparr>manualmode := True\<rparr> = fold effect ?A (?c\<lparr>manualmode := True\<rparr>)"
      by (simp add: fold_effect_auto settle_def split: option.split)
    with 1 show ?thesis
      using run [of EnterManualMode_new "ManualModeSignal True"]
      by (simp add: body_request transform_request [OF assms(2)] announces_def auto_scripts_def
          nominal_def)
  next
    case 2
    with run [of LeaveManualMode_new "ManualModeSignal False"] show ?thesis
      by (simp add: body_request transform_request [OF assms(2)] announces_def auto_scripts_def
          nominal_def)
  next
    case 3
    with simp show ?thesis
      by (cases m)
        (simp_all add: field_same body_request transform_to_self transform_request assms(2) auto_scripts_def
          fold_effect_settle)
  qed
qed

lemma body_SafeModeReq:
  assumes "spawns_ok U" and "calm (current_state s)" and "ids_fresh s"
  shows "yields (progress {} s (expected_scripts (scripts s) (SafeModeReq m) (current_state s))
      (expected_state (SafeModeReq m) (current_state s))) (on_event_body U oe (SafeModeReq m) s)"
proof -
  let ?c = "current_state s" and ?A = "auto_rules (daemon (pl (current_state s))) (current_state s)"
  consider "m" | "\<not> m" "safemode ?c = 0" | "\<not> m" "safemode ?c \<noteq> 0"
    by blast
  then show ?thesis
  proof cases
    case 1
    have "fold effect (EnterSafeMode_new 3 # ?A) ?c = expected_state (SafeModeReq True) ?c"
      by (auto simp: effect_def fold_effect_auto settle_def emergency_iff_reason split: option.split)
    moreover have "\<forall>a\<in>set (EnterSafeMode_new 3 # ?A). simple a"
      using simple_auto by (simp add: simple_def)
    ultimately show ?thesis
      using run_simple [OF assms, of "EnterSafeMode_new 3 # ?A"] 1
      by (simp add: body_request transform_request [OF assms(2)] auto_scripts_def)
  next
    case 2
    then have "on_event_body U oe (SafeModeReq m) s = run_actions U oe ?A s"
      by (simp add: body_request transform_request assms(2))
    with 2 run_simple [OF assms, of ?A, OF simple_auto] show ?thesis
      by (simp add: field_same auto_scripts_def fold_effect_settle)
  next
    case 3
    with run_announced [OF assms, of LeaveSafeMode_new "SafeModeSignal 0" "[]"] show ?thesis
      by (simp add: body_request transform_request [OF assms(2)] announces_def auto_scripts_def
          nominal_def)
  qed
qed

lemma body_LEOPReq:
  assumes "spawns_ok U" and "calm (current_state s)" and "ids_fresh s"
  shows "yields (progress {} s (expected_scripts (scripts s) (LEOPReq l) (current_state s))
      (expected_state (LEOPReq l) (current_state s))) (on_event_body U oe (LEOPReq l) s)"
proof -
  let ?c = "current_state s" and ?A = "auto_rules (daemon (pl (current_state s))) (current_state s)"
  let ?d = "?c\<lparr>leop := l\<rparr>"
  consider "l = DONE" "leop ?c \<noteq> DONE" | "l = DONE" "leop ?c = DONE" | "l \<noteq> DONE"
    by blast
  then show ?thesis
  proof cases
    case 1
    have "fold effect ?A (settle ?d) = settle ?d"
      by (auto simp: fold_effect_auto settle_def split: option.split)
    with 1 run_announced [OF assms, of FinishLEOP_new "LEOPSignal DONE" ?A, OF _ simple_auto]
    show ?thesis
      by (simp add: body_request transform_request [OF assms(2)] announces_def auto_scripts_def)
  next
    case 2
    with run_simple [OF assms, of ?A, OF simple_auto] show ?thesis
      by (simp add: field_same body_request transform_to_self transform_request assms(2) auto_scripts_def
          fold_effect_settle)
  next
    case 3
    have "ids_fresh (s\<lparr>current_state := ?d\<rparr>)"
      using assms(3) by (simp add: ids_fresh_def)
    with 3 run_simple [OF assms(1), of "s\<lparr>current_state := ?d\<rparr>", OF _ _ simple_auto [of "daemon (pl ?c)" ?d]] assms(2)
    show ?thesis
      by (simp add: body_request transform_request [OF assms(2)] auto_scripts_def
          fold_effect_settle)
  qed
qed

lemma body_expected:
  assumes "spawns_ok U" and "calm (current_state s)" and "ids_fresh s"
  shows "yields (progress {} s (expected_scripts (scripts s) ev (current_state s))
      (expected_state ev (current_state s))) (on_event_body U oe ev s)"
proof (cases "is_fact ev")
  case True
  with assms show ?thesis
    by (intro settling_handler.settles [OF body_settles])
next
  case False
  then consider l where "ev = LEOPReq l" | m where "ev = ManualModeReq m"
    | p where "ev = PayloadReq p" | m where "ev = SafeModeReq m" | c where "ev = Control c"
    by (cases ev) auto
  then show ?thesis
  proof cases
    case 1
    with assms show ?thesis by (simp only: body_LEOPReq)
  next
    case 2
    with assms show ?thesis by (simp only: body_ManualModeReq)
  next
    case (3 p)
    with run_simple [OF assms, of "auto_rules p (current_state s)", OF simple_auto] show ?thesis
      by (simp add: body_request transform_request [OF assms(2)] auto_scripts_def
          fold_effect_settle)
  next
    case 4
    with assms show ?thesis by (simp only: body_SafeModeReq)
  next
    case (5 c)
    let ?a = "ShellCommand_new_prefix (ctl_command (ctl c)) [] (Some c)"
    let ?A = "auto_rules (daemon (pl (current_state s))) (current_state s)"
    have "\<forall>b\<in>set (?a # ?A). simple b" and "effect ?a (current_state s) = current_state s"
      using simple_auto by (simp_all add: simple_def effect_def)
    with 5 run_simple [OF assms, of "?a # ?A"] show ?thesis
      by (simp add: body_request transform_request [OF assms(2)] auto_scripts_def
          fold_effect_settle)
  qed
qed

end

subsection \<open>The handler meets its contracts\<close>

lemma on_event_quiet: "quiet_handler (on_event U (Suc d))"
proof
  fix ev s
  assume "is_fact ev" "calm (current_state s)" "ids_fresh s"
    and "auto_rules (daemon (pl (update ev (current_state s)))) (update ev (current_state s)) = []"
  then show "yields (progress {} s [] (update ev (current_state s))) (on_event U (Suc d) ev s)"
    by (simp add: on_event_body_def state_copy_def transform_to_self calm_fact)
      (simp add: progress_def ids_fresh_def)
qed

lemma on_event_settling:
  assumes "spawns_ok U"
  shows "settling_handler (on_event U (Suc (Suc d)))"
  using quiet_handler.body_settles [OF on_event_quiet [of U d] assms]
  by (simp only: on_event_Suc)

text \<open>With the libuv that spawns every process, the contracts are interpreted outright.\<close>

definition reliable :: spawner where
  "reliable h line = 0"

lemma reliable_ok: "spawns_ok reliable"
  by (simp add: spawns_ok_def reliable_def)

interpretation quiet_sat: quiet_handler "on_event U (Suc d)" for U d
  by (rule on_event_quiet)

interpretation reliable_settling: settling_handler "on_event reliable (Suc (Suc d))" for d
  by (rule on_event_settling [OF reliable_ok])

lemma on_event_expected:
  assumes "spawns_ok U" and "calm (current_state s)" and "ids_fresh s" and "3 \<le> d"
  shows "yields (progress {} s (expected_scripts (scripts s) ev (current_state s))
      (expected_state ev (current_state s))) (on_event U d ev s)"
proof -
  obtain e where "d = Suc (Suc (Suc e))"
    using assms(4) by (metis add_Suc le_Suc_ex numeral_3_eq_3 plus_nat.add_0)
  then show ?thesis
    using settling_handler.body_expected [OF on_event_settling [OF assms(1)] assms(1-3)]
    by (simp only: on_event_Suc)
qed

end
