(* ===== verification/Mission.thy ===== *)
theory Mission
  imports Settle
begin

text \<open>
  Runs of the satellite: external events and process exits, in any order and any number,
  with libuv free to refuse any spawn. The main safety invariant is proved for every
  reachable state, the completion of actions is specified, and the two ways in which the
  re-entrant handler can exhaust the stack are characterised.
\<close>

subsection \<open>Spawn failures never return\<close>

lemma remove_action_removes [simp]: "actions (remove_action i s) i = None"
  by (simp add: remove_action_def)

lemma action_done_removes: "action_done oe k i b s = Inr s' \<Longrightarrow> actions s' i = None"
  by (cases k)
    (auto simp: action_done_def done_defs satellite_done_def outcome_simps split: if_splits)

lemma shell_exited_removes: "ShellCommand_exited oe i code s = Inr s' \<Longrightarrow> actions s' i = None"
  by (auto simp: ShellCommand_exited_def action_done_removes split: option.splits)

lemma spawn_failure_faults:
  assumes "actions s i = Some a" and "U (spawn_log s) (command_line (scripts s) a) \<noteq> 0"
  shows "\<exists>e. ShellCommand_perform U oe i s = Inl e"
proof -
  let ?r = "U (spawn_log s) (command_line (scripts s) a)"
  show ?thesis
  proof (cases "ShellCommand_exited oe i (- 1) (launched i a s ?r)")
    case (Inl e)
    then show ?thesis
      by (simp add: shell_perform_fail [where U = U, OF assms(1) refl assms(2)])
  next
    case (Inr s')
    then have "actions s' i = None"
      by (rule shell_exited_removes)
    with Inr show ?thesis
      by (simp add: shell_perform_fail [where U = U, OF assms(1) refl assms(2)])
  qed
qed

lemma shell_perform_state:
  assumes "ShellCommand_perform U oe i s = Inr s'"
  shows "current_state s' = current_state s"
proof -
  from assms obtain a where a: "actions s i = Some a"
    by (auto simp: ShellCommand_perform_def split: option.splits)
  have "U (spawn_log s) (command_line (scripts s) a) = 0"
    using assms spawn_failure_faults [where U = U, OF a, of oe] by force
  with a assms show ?thesis
    by (auto simp: shell_perform_ok launched_def)
qed

subsection \<open>Emergencies are handled\<close>

text \<open>In nominal operation there is no emergency.\<close>

definition handled :: "state \<Rightarrow> bool" where
  "handled s \<longleftrightarrow> (nominal s \<longrightarrow> \<not> emergency s)"

lemma handled_leop [simp]: "handled (leop_shift s t) = handled s"
  by (simp add: handled_def nominal_def emergency_def leop_shift_def)

definition registry_ok :: "satellite \<Rightarrow> bool" where
  "registry_ok s \<longleftrightarrow> ids_fresh s \<and> (\<forall>a\<in>ran (actions s). action_ok a)"

interpretation reg: satellite_invariant registry_ok
proof
  fix s i a b ev t l rs
  assume reg: "registry_ok s"
  show "registry_ok (snd (add_action a s))" if "action_ok a"
    using reg that sat.ok_add [of s a "fst (add_action a s)" "snd (add_action a s)"]
    by (auto simp: registry_ok_def dest: ran_add_action)
  show "registry_ok (remove_action i s)"
    using reg by (auto simp: registry_ok_def sat.ok_remove dest: ran_remove_action)
  show "registry_ok (s\<lparr>actions := (actions s)(i \<mapsto> b)\<rparr>)"
    if "actions s i = Some a" "kind b = kind a" "action_ok b"
    using reg that ran_touch_ok [of s b i] by (auto simp: registry_ok_def ids_fresh_def)
  show "registry_ok (s\<lparr>spawn_log := l\<rparr>)" "registry_ok (s\<lparr>replies := rs\<rparr>)"
    "registry_ok (s\<lparr>current_state := update ev (current_state s)\<rparr>)"
    "registry_ok (s\<lparr>current_state := leop_shift (current_state s) t\<rparr>)"
    "registry_ok (s\<lparr>current_state := (current_state s)\<lparr>safemode := 0\<rparr>\<rparr>)"
    using reg by (simp_all add: registry_ok_def ids_fresh_def)
  show "action_ok a" if "actions s i = Some a"
    using reg that by (auto simp: registry_ok_def intro: ranI)
qed

text \<open>A handler that leaves every emergency handled, whatever the state it starts in.\<close>

locale guarding_handler = sink_client oe registry_ok for oe :: handler +
  assumes guards: "registry_ok s \<Longrightarrow> admissible ev \<Longrightarrow> oe ev s = Inr s' \<Longrightarrow> handled (current_state s')"
begin

lemma emit_guards:
  assumes "and_then (oe ev s) (ShellCommand_perform U oe i) = Inr s'"
    and "registry_ok s" and "admissible ev"
  shows "handled (current_state s')"
  using assms by (auto simp: outcome_simps shell_perform_state dest: guards [rotated 2])

lemma enter_safemode_guards:
  assumes "EnterSafeMode_perform U oe r i s = Inr s'" and "registry_ok s" and "r \<le> 3"
  shows "handled (current_state s')"
proof -
  from assms(1) obtain s1 where "oe (SafeModeSignal r) s = Inr s1"
    and rest: "and_then (oe (ManeuverModeSignal False) s1) (ShellCommand_perform U oe i) = Inr s'"
    by (auto simp: EnterSafeMode_perform_def outcome_simps)
  then have "registry_ok s1"
    using assms(2,3) sink [of s "SafeModeSignal r" s1] by simp
  with rest show ?thesis
    by (rule emit_guards) simp
qed

lemma perform_guards:
  assumes "perform U oe k i s = Inr s'" and "registry_ok s"
    and "case k of EnterSafeMode r \<Rightarrow> r \<le> 3 | _ \<Rightarrow> True"
  shows "handled (current_state s') \<or>
    (current_state s' = current_state s \<and> (\<forall>r. k \<noteq> EnterSafeMode r))"
  using assms
  by (cases k)
    (auto simp: perform_def TriggerDetumbling_perform_def TriggerMeasuring_perform_def
      TriggerSunpointing_perform_def EnterManualMode_perform_def FinishLEOP_perform_def
      LeaveManualMode_perform_def LeaveSafeMode_perform_def shell_perform_state
      intro: emit_guards enter_safemode_guards)

lemma run_actions_guards:
  assumes "run_actions U oe as s = Inr s'" and "registry_ok s" and "\<forall>a\<in>set as. action_ok a"
    and "handled (current_state s) \<or> (\<exists>a\<in>set as. \<exists>r. kind a = EnterSafeMode r)"
  shows "handled (current_state s')"
  using assms
proof (induction as arbitrary: s)
  case Nil
  then show ?case by simp
next
  case (Cons a as)
  let ?s = "s\<lparr>actions := (actions s)(next_id s \<mapsto> a), next_id := Suc (next_id s)\<rparr>"
  have fresh: "ids_fresh s"
    using Cons.prems(2) by (simp add: registry_ok_def)
  then have reg: "registry_ok ?s"
    using reg.I_add [OF Cons.prems(2), of a] Cons.prems(3) by (simp add: add_action_fresh)
  from Cons.prems(1) obtain s1 where p: "perform U oe (kind a) (next_id s) ?s = Inr s1"
    and rest: "run_actions U oe as s1 = Inr s'"
    by (auto simp only: run_actions_Cons [OF fresh] and_then_eq_Inr)
  have ok: "case kind a of EnterSafeMode r \<Rightarrow> r \<le> 3 | _ \<Rightarrow> True"
    using Cons.prems(3) by (auto simp: action_ok_def split: action_kind.splits)
  have "registry_ok s1"
    using reg ok p by (rule perform_inv)
  moreover have "handled (current_state s1) \<or> (\<exists>a\<in>set as. \<exists>r. kind a = EnterSafeMode r)"
    using perform_guards [OF p reg ok] Cons.prems(4) by auto
  ultimately show ?case
    using rest Cons.prems(3) by (auto intro: Cons.IH)
qed

lemma body_guards:
  assumes "registry_ok s" and "admissible ev" and "on_event_body U oe ev s = Inr s'"
  shows "handled (current_state s')"
proof -
  define s1 where
    "s1 = (if is_fact ev then s\<lparr>current_state := update ev (current_state s)\<rparr> else s)"
  define target where
    "target = (if \<not> is_fact ev then update ev (current_state s1) else current_state s1)"
  obtain st acts where tr: "transform_to (current_state s1) target = (st, acts)"
    by force
  have st: "st = leop_shift (current_state s1) target"
    and acts: "set (auto_rules (daemon (pl target)) st) \<subseteq> set acts"
    using tr by (auto simp: transform_to_split)
  have run: "run_actions U oe acts (s1\<lparr>current_state := st\<rparr>) = Inr s'"
    using assms(3) tr
    by (cases "is_fact ev") (simp_all add: on_event_body_def state_copy_def s1_def target_def)
  have reg: "registry_ok (s1\<lparr>current_state := st\<rparr>)"
    using assms(1) by (simp add: s1_def registry_ok_def ids_fresh_def)
  have ok: "\<forall>a\<in>set acts. action_ok a"
    using tr action_ok_transform_to by blast
  have "handled st \<or> (\<exists>a\<in>set acts. \<exists>r. kind a = EnterSafeMode r)"
  proof (cases "handled st")
    case False
    then obtain r where "nominal st" "emergency_reason st = Some r"
      by (auto simp: handled_def emergency_iff_reason)
    then have "EnterSafeMode_new r \<in> set acts"
      using acts by (auto simp: auto_rules_def)
    then show ?thesis
      using kind_new(4) by blast
  qed simp
  then show ?thesis
    using run_actions_guards [OF run reg ok] by simp
qed

lemma emit_done_guards:
  assumes "and_then (oe ev s) (\<lambda>s. Inr (satellite_done i b s)) = Inr s'"
    and "registry_ok s" and "admissible ev"
  shows "handled (current_state s')"
proof -
  from assms(1) obtain s1 where "oe ev s = Inr s1" and "s' = satellite_done i b s1"
    by (auto simp: outcome_simps)
  with guards [OF assms(2,3)] show ?thesis
    by (simp add: satellite_done_def)
qed

lemma done_guards:
  assumes "action_done oe k i b s = Inr s'" and "registry_ok s" and "handled (current_state s)"
  shows "handled (current_state s')"
proof -
  have clear: "registry_ok (s\<lparr>current_state := (current_state s)\<lparr>safemode := 0\<rparr>\<rparr>)"
    using assms(2) by (rule reg.I_clear)
  have quiet: "handled (current_state (satellite_done i b s))"
    using assms(3) by (simp add: satellite_done_def)
  note emit = emit_done_guards [OF _ assms(2)] emit_done_guards [OF _ clear]
  show ?thesis
    using assms(1) quiet
    by (cases k; cases b; cases "safemode (current_state s) = 0")
      (simp_all add: action_done_def done_defs emit)
qed

lemma exited_guards:
  assumes "ShellCommand_exited oe i code s = Inr s'" and "registry_ok s"
    and "handled (current_state s)"
  shows "handled (current_state s')"
proof -
  from assms(1) obtain a where a: "actions s i = Some a"
    by (auto simp: ShellCommand_exited_def split: option.splits)
  define rs where "rs = replies s @
    (case request a of None \<Rightarrow> [] | Some m \<Rightarrow> ctl_done m (exit_text code))"
  have "action_done oe (kind a) i (code = 0) (s\<lparr>replies := rs\<rparr>) = Inr s'"
    using assms(1) by (simp add: ShellCommand_exited_def a rs_def)
  moreover have "registry_ok (s\<lparr>replies := rs\<rparr>)" and "handled (current_state (s\<lparr>replies := rs\<rparr>))"
    using assms(2,3) reg.I_reply by simp_all
  ultimately show ?thesis
    by (rule done_guards)
qed

lemma process_exit_guards:
  assumes "process_exit oe i status sig s = Inr s'" and "registry_ok s"
    and "handled (current_state s)"
  shows "handled (current_state s')"
proof -
  from assms(1) obtain a p q run where a: "actions s i = Some a" and p: "child a = Some p"
    and q: "exit_cb status sig p = Inr (q, run)"
    and s': "(if run then ShellCommand_exited oe i (exit_code q)
                (s\<lparr>actions := (actions s)(i \<mapsto> a\<lparr>child := Some q\<rparr>)\<rparr>)
              else Inr (s\<lparr>actions := (actions s)(i \<mapsto> a\<lparr>child := Some q\<rparr>)\<rparr>)) = Inr s'"
    by (auto simp: process_exit_def outcome_simps Let_def split: option.splits)
  have "registry_ok (s\<lparr>actions := (actions s)(i \<mapsto> a\<lparr>child := Some q\<rparr>)\<rparr>)"
    using assms(2) a
    by (rule reg.I_touch)
      (use reg.I_kind [OF assms(2) a] p q exit_cb_yields [of p status sig] in \<open>simp_all add: action_ok_def\<close>)
  with s' assms(3) show ?thesis
    by (auto dest: exited_guards split: if_splits)
qed

end

lemma on_event_guards:
  "registry_ok s \<Longrightarrow> admissible ev \<Longrightarrow> on_event U d ev s = Inr s' \<Longrightarrow> handled (current_state s')"
proof (induction d arbitrary: s ev s')
  case 0
  then show ?case by simp
next
  case (Suc d)
  have "guarding_handler (on_event U d)"
    using reg.on_event_client Suc.IH by (intro guarding_handler.intro guarding_handler_axioms.intro)
  from guarding_handler.body_guards [OF this] Suc.prems show ?case
    by simp
qed

lemma on_event_guarding: "guarding_handler (on_event U d)"
  using reg.on_event_client on_event_guards
  by (intro guarding_handler.intro guarding_handler_axioms.intro)

interpretation guard: guarding_handler "on_event U d" for U d
  by (rule on_event_guarding)

subsection \<open>Runs\<close>

text \<open>
  The events that reach the satellite from outside, that is, those the D-Bus handlers
  create; and one step of a run: such an event, or the exit of a running process. A step
  is one that returns, at some depth of the stack.
\<close>

fun external :: "event \<Rightarrow> bool" where
  "external (ADCSSignal a) = True"
| "external (EPSSignal b) = True"
| "external (LEOPReq l) = True"
| "external (ManeuverModeSignal m) = True"
| "external (ManualModeReq m) = True"
| "external (PayloadReq p) = (p = WANTMEASURE)"
| "external (PayloadSignal p) = (p = IDLE)"
| "external (SafeModeReq m) = True"
| "external (THMSignal t) = True"
| "external (Control c) = True"
| "external _ = False"

inductive step :: "spawner \<Rightarrow> satellite \<Rightarrow> satellite \<Rightarrow> bool" for U where
  receive: "external ev \<Longrightarrow> on_event U d ev s = Inr s' \<Longrightarrow> step U s s'"
| finish: "actions s i = Some a \<Longrightarrow> child a = Some p \<Longrightarrow> running p \<Longrightarrow>
    process_exit (on_event U d) i status sig s = Inr s' \<Longrightarrow> step U s s'"

inductive_cases stepE: "step U s s'"

inductive reachable :: "spawner \<Rightarrow> arguments \<Rightarrow> bool \<Rightarrow> leop_seq \<Rightarrow> satellite \<Rightarrow> bool"
  for U args enforced0 leop0 where
  start: "reachable U args enforced0 leop0 (Satellite_new args enforced0 leop0)"
| advance: "reachable U args enforced0 leop0 s \<Longrightarrow> step U s s' \<Longrightarrow> reachable U args enforced0 leop0 s'"

lemma external_admissible: "external ev \<Longrightarrow> admissible ev"
  by (cases ev) simp_all

text \<open>Any invariant of the satellite that holds at the start holds in every reachable state.\<close>

context satellite_invariant
begin

lemma step_inv: "step U s s' \<Longrightarrow> I s \<Longrightarrow> I s'"
  by (erule stepE) (blast intro: on_event_inv process_exit_keeps external_admissible)+

lemma reachable_inv:
  assumes "reachable U args e l s" and "I (Satellite_new args e l)"
  shows "I s"
  using assms(1)
proof induction
  case start
  show ?case by (rule assms(2))
next
  case (advance s s')
  then show ?case by (blast intro: step_inv)
qed

end

lemma Satellite_new_registry: "registry_ok (Satellite_new args e l)"
  by (simp add: registry_ok_def ids_fresh_def Satellite_new_def Let_def)

lemma Satellite_new_handled: "handled (current_state (Satellite_new args e l))"
  by (simp add: handled_def emergency_def Satellite_new_def State_new_def THM_new_def EPS_new_def)

lemma step_handled:
  assumes "step U s s'" and "registry_ok s" and "handled (current_state s)"
  shows "handled (current_state s')"
  using assms
  by (auto elim!: stepE intro: on_event_guards guard.process_exit_guards external_admissible)

lemma reachable_handled_lemma:
  assumes "reachable U args e l s"
  shows "handled (current_state s)"
  using assms
proof induction
  case start
  show ?case by (rule Satellite_new_handled)
next
  case (advance s s')
  then show ?case
    using reg.reachable_inv [OF advance.hyps(1) Satellite_new_registry] by (blast intro: step_handled)
qed

subsection \<open>Completion of actions\<close>

text \<open>
  What the completion of an action means: the event its callback emits, the state it
  emits it in, and the outcome in terms of the specification of events.
\<close>

fun exit_event :: "action_kind \<Rightarrow> bool \<Rightarrow> state \<Rightarrow> event option" where
  "exit_event (EnterSafeMode r) False s = Some (SafeModeSignal 0)"
| "exit_event LeaveManualMode ok s = (if safemode s \<noteq> 0 then Some (SafeModeReq True) else None)"
| "exit_event TriggerDetumbling True s = Some (ADCSreqSignal DETUMB)"
| "exit_event TriggerMeasuring True s = Some (PayloadSignal MEASURING)"
| "exit_event TriggerSunpointing True s = Some (ADCSreqSignal SUN)"
| "exit_event _ _ s = None"

definition exit_base :: "action_kind \<Rightarrow> state \<Rightarrow> state" where
  "exit_base k s = (if k = LeaveManualMode then s\<lparr>safemode := 0\<rparr> else s)"

definition exit_state :: "action_kind \<Rightarrow> bool \<Rightarrow> state \<Rightarrow> state" where
  "exit_state k ok s =
     (case exit_event k ok s of None \<Rightarrow> s | Some ev \<Rightarrow> expected_state ev (exit_base k s))"

definition exit_scripts :: "string \<Rightarrow> action_kind \<Rightarrow> bool \<Rightarrow> state \<Rightarrow> string list" where
  "exit_scripts path k ok s =
     (case exit_event k ok s of None \<Rightarrow> [] | Some ev \<Rightarrow> expected_scripts path ev (exit_base k s))"

lemma action_done_event:
  "action_done oe k i ok s =
     and_then (case exit_event k ok (current_state s) of
                 None \<Rightarrow> Inr s
               | Some ev \<Rightarrow> oe ev (s\<lparr>current_state := exit_base k (current_state s)\<rparr>))
       (\<lambda>s. Inr (satellite_done i ok s))"
  by (cases k; cases ok)
    (simp_all add: action_done_def done_defs exit_base_def)

lemma remove_action_frame [simp]:
  "spawn_log (remove_action i s) = spawn_log s" "replies (remove_action i s) = replies s"
  "scripts (remove_action i s) = scripts s"
  "j \<noteq> i \<Longrightarrow> actions (remove_action i s) j = actions s j"
  by (simp_all add: remove_action_def)

text \<open>
  \<open>completes i a code s s'\<close>: from \<open>s\<close>, the action \<open>a\<close> with identifier \<open>i\<close> has completed with
  the exit code \<open>code\<close>, and the satellite is now \<open>s'\<close>.
\<close>

definition completes :: "id \<Rightarrow> action \<Rightarrow> int \<Rightarrow> satellite \<Rightarrow> satellite \<Rightarrow> bool" where
  "completes i a code s s' \<longleftrightarrow>
     current_state s' = exit_state (kind a) (code = 0) (current_state s) \<and>
     spawn_log s' = spawn_log s @
       map (\<lambda>l. (l, 0)) (exit_scripts (scripts s) (kind a) (code = 0) (current_state s)) \<and>
     replies s' = replies s @
       (case request a of None \<Rightarrow> [] | Some m \<Rightarrow> ctl_done m (exit_text code)) \<and>
     scripts s' = scripts s \<and> ids_fresh s' \<and>
     actions s' i = None \<and> (\<forall>j\<in>dom (actions s) - {i}. actions s' j = actions s j)"

lemma exited_expected:
  assumes "spawns_ok U" and "calm (current_state s)" and "ids_fresh s" and "3 \<le> d"
    and "actions s i = Some a"
  shows "yields (completes i a code s) (ShellCommand_exited (on_event U d) i code s)"
proof -
  define rs where "rs = replies s @
    (case request a of None \<Rightarrow> [] | Some m \<Rightarrow> ctl_done m (exit_text code))"
  let ?s = "s\<lparr>replies := rs\<rparr>" and ?c = "current_state s"
  have ex: "ShellCommand_exited (on_event U d) i code s =
      action_done (on_event U d) (kind a) i (code = 0) ?s"
    using assms(5) by (simp add: ShellCommand_exited_def rs_def)
  show ?thesis
  proof (cases "exit_event (kind a) (code = 0) ?c")
    case None
    moreover have "ids_fresh ?s"
      using assms(3) by (simp add: ids_fresh_def)
    ultimately show ?thesis
      by (simp add: ex action_done_event satellite_done_def exit_state_def exit_scripts_def
          completes_def sat.ok_remove)
        (simp add: rs_def)
  next
    case (Some ev)
    let ?t = "?s\<lparr>current_state := exit_base (kind a) ?c\<rparr>"
    have "calm (current_state ?t)" and "ids_fresh ?t"
      using assms(2,3) by (simp_all add: exit_base_def ids_fresh_def)
    from on_event_expected [OF assms(1) this assms(4), of ev] obtain s1
      where s1: "on_event U d ev ?t = Inr s1"
      and p: "progress {} ?t (expected_scripts (scripts s) ev (exit_base (kind a) ?c))
        (expected_state ev (exit_base (kind a) ?c)) s1"
      by (auto simp: yields_iff)
    have ex1: "ShellCommand_exited (on_event U d) i code s = Inr (satellite_done i (code = 0) s1)"
      by (simp add: ex action_done_event Some s1)
    from p show ?thesis
      unfolding ex1
      by (simp add: satellite_done_def exit_state_def exit_scripts_def Some progress_def
          completes_def sat.ok_remove)
        (simp add: rs_def)
  qed
qed

lemma process_exit_expected:
  assumes "spawns_ok U" and "calm (current_state s)" and "ids_fresh s" and "3 \<le> d"
    and "actions s i = Some a" and "child a = Some p" and "process_wf p" and "sig \<noteq> SIGTERM"
  shows "yields (completes i a status s) (process_exit (on_event U d) i status sig s)"
proof -
  obtain q where q: "exit_cb status sig p = Inr (q, True)" and code: "exit_code q = status"
    using exit_cb_yields [OF assms(7), of status sig] assms(8) by (auto simp: yields_iff)
  let ?a = "a\<lparr>child := Some q\<rparr>"
  let ?s = "s\<lparr>actions := (actions s)(i \<mapsto> ?a)\<rparr>"
  have ex: "process_exit (on_event U d) i status sig s =
      ShellCommand_exited (on_event U d) i status ?s"
    using assms(5,6) by (simp add: process_exit_def q code)
  have "calm (current_state ?s)" and "ids_fresh ?s" and "actions ?s i = Some ?a"
    using assms(2,3,5) by (auto simp: ids_fresh_def)
  from exited_expected [OF assms(1) this(1,2) assms(4) this(3), of status] show ?thesis
    unfolding ex by (rule yields_mono) (auto simp: completes_def domIff)
qed

lemma completes_progress:
  "completes i a code s s' \<Longrightarrow> request a = None \<Longrightarrow>
     progress {i} s (exit_scripts (scripts s) (kind a) (code = 0) (current_state s))
       (exit_state (kind a) (code = 0) (current_state s)) s'"
  by (simp add: completes_def progress_def)

lemma on_event_fact:
  assumes "spawns_ok U" and "3 \<le> d" and "is_fact ev" and "calm (current_state s)" and "ids_fresh s"
    and "c = update ev (current_state s)"
  shows "yields (progress {} s (auto_scripts (scripts s) (daemon (pl c)) c) (settle c))
    (on_event U d ev s)"
  using on_event_expected [OF assms(1,4,5,2), of ev] assms(3,6) by (simp add: expected_fact)

text \<open>A step after progress is progress from the same start.\<close>

lemma progress_step:
  assumes "progress X s ls st s1" and "yields (progress {} s1 ls' st') m"
  shows "yields (progress X s (ls @ ls') st') m"
  using assms(2) by (rule yields_mono) (rule progress_trans [OF assms(1) progress_weaken])

lemma process_exit_sigterm:
  assumes "actions s i = Some a" and "child a = Some p" and "process_wf p"
  shows "\<exists>q. process_exit oe i status SIGTERM s =
      Inr (s\<lparr>actions := (actions s)(i \<mapsto> a\<lparr>child := Some q\<rparr>)\<rparr>) \<and> \<not> running q"
proof -
  obtain q where "exit_cb status SIGTERM p = Inr (q, False)" and "\<not> running q"
    using exit_cb_yields [OF assms(3), of status SIGTERM] by (auto simp: yields_iff)
  then show ?thesis
    using assms(1,2) by (auto simp: process_exit_def)
qed

subsection \<open>Cruising\<close>

text \<open>
  The satellite in its normal flight: deployed, in nominal operation, without an emergency,
  a manoeuvre or a wish of the payload. Only the attitude control is left to act on.
\<close>

definition cruising :: "state \<Rightarrow> bool" where
  "cruising s \<longleftrightarrow> calm s \<and> nominal s \<and> \<not> emergency s \<and> \<not> maneuvermode s \<and>
     DEPLOYED \<le> leop s \<and> daemon (pl s) \<noteq> WANTMEASURE"

lemma cruising_calm: "cruising s \<Longrightarrow> calm s"
  by (simp add: cruising_def)

lemma cruising_adcs [simp]: "cruising (s\<lparr>adcs := a\<rparr>) = cruising s"
  by (simp add: cruising_def calm_def nominal_def emergency_def)

lemma cruising_eps:
  "cruising s \<Longrightarrow> battery_treshold s \<le> b \<Longrightarrow> cruising (s\<lparr>eps := e\<lparr>battery_level := b\<rparr>\<rparr>)"
  by (simp add: cruising_def calm_def nominal_def emergency_def)

lemma cruising_reason: "cruising s \<Longrightarrow> emergency_reason s = None"
  by (simp add: cruising_def emergency_iff_reason)

lemma cruising_settle: "cruising s \<Longrightarrow> settle s = s"
  by (simp add: settle_def cruising_reason)

lemma cruising_auto:
  assumes "cruising s"
  shows "auto_rules (daemon (pl s)) s =
    (if adcs_idle s then [TriggerDetumbling_new]
     else if pointing (adcs s) = DETUMB then [TriggerSunpointing_new] else [])"
proof -
  have "adcs_idle s \<Longrightarrow> pointing (adcs s) \<noteq> DETUMB"
    by (auto simp: adcs_idle_def)
  then show ?thesis
    using assms cruising_reason [OF assms] by (auto simp: auto_rules_def cruising_def)
qed

text \<open>The attitude script that a fact starts while the satellite cruises.\<close>

definition attitude_scripts :: "string \<Rightarrow> state \<Rightarrow> string list" where
  "attitude_scripts dir c =
     (if adcs_idle c then [dir @ ''trigger_detumbling.sh'']
      else if pointing (adcs c) = DETUMB then [dir @ ''trigger_sunpointing.sh''] else [])"

lemma attitude_scripts_adcs: "adcs c = adcs c' \<Longrightarrow> attitude_scripts dir c = attitude_scripts dir c'"
  by (simp add: attitude_scripts_def adcs_idle_def)

lemma cruising_fact:
  assumes "spawns_ok U" and "3 \<le> d" and "is_fact ev" and "cruising (current_state s)"
    and "ids_fresh s" and "c = update ev (current_state s)" and "cruising c"
  shows "yields (progress {} s (attitude_scripts (scripts s) c) c) (on_event U d ev s)"
  using on_event_fact [OF assms(1-3) cruising_calm [OF assms(4)] assms(5,6)] assms(7)
  by (simp add: auto_scripts_def attitude_scripts_def cruising_auto cruising_settle split: if_splits)

text \<open>A sequence of events, each handled to its end before the next one.\<close>

definition on_events :: "spawner \<Rightarrow> nat \<Rightarrow> event list \<Rightarrow> satellite \<Rightarrow> satellite outcome" where
  "on_events U d evs s = fold (\<lambda>ev m. and_then m (on_event U d ev)) evs (Inr s)"

lemma on_events_snoc [simp]:
  "on_events U d [] s = Inr s"
  "on_events U d (evs @ [ev]) s = and_then (on_events U d evs s) (on_event U d ev)"
  by (simp_all add: on_events_def)

text \<open>
  While the satellite cruises every report of the battery level, and nothing else in it than
  the state of the ADCS, decides which attitude script is started: the same one for every
  report, since nothing records that it was started.
\<close>

definition reported :: "id set \<Rightarrow> satellite \<Rightarrow> string list \<Rightarrow> state \<Rightarrow> satellite \<Rightarrow> bool" where
  "reported X s ls c s' \<longleftrightarrow> progress X s ls (current_state s') s' \<and> cruising (current_state s') \<and>
     adcs (current_state s') = adcs c \<and>
     battery_treshold (current_state s') = battery_treshold c"

lemma battery_reports_progress:
  assumes "spawns_ok U" and "3 \<le> d" and "progress X s ls (current_state s1) s1"
    and "cruising (current_state s1)" and "\<forall>b\<in>set bs. battery_treshold (current_state s1) \<le> b"
  shows "yields (reported X s (ls @ concat (replicate (length bs) (attitude_scripts (scripts s) (current_state s1))))
      (current_state s1))
    (on_events U d (map EPSSignal bs) s1)"
  using assms(5)
proof (induction bs rule: rev_induct)
  case Nil
  then show ?case
    using assms(3,4) by (simp add: reported_def)
next
  case (snoc b bs)
  let ?one = "attitude_scripts (scripts s) (current_state s1)"
  let ?sofar = "ls @ concat (replicate (length bs) ?one)"
  have IH: "yields (reported X s ?sofar (current_state s1)) (on_events U d (map EPSSignal bs) s1)"
    using snoc by simp
  have more: "yields (reported X s (ls @ concat (replicate (length (bs @ [b])) ?one)) (current_state s1))
      (on_event U d (EPSSignal b) s2)"
    if "reported X s ?sofar (current_state s1) s2" for s2
  proof -
    let ?c = "update (EPSSignal b) (current_state s2)"
    have p: "progress X s ?sofar (current_state s2) s2"
      and c: "cruising (current_state s2)" "cruising ?c" "adcs ?c = adcs (current_state s1)"
        "battery_treshold ?c = battery_treshold (current_state s1)"
      using that snoc.prems by (simp_all add: reported_def cruising_eps)
    have "yields (progress X s (?sofar @ attitude_scripts (scripts s) ?c) ?c) (on_event U d (EPSSignal b) s2)"
      using progress_step [OF p cruising_fact [OF assms(1,2), of "EPSSignal b" s2 ?c]] progressD [OF p] c
      by simp
    moreover have "attitude_scripts (scripts s) ?c = ?one"
      using c(3) by (rule attitude_scripts_adcs)
    moreover have "concat (replicate (length (bs @ [b])) ?one) = concat (replicate (length bs) ?one) @ ?one"
      by (simp add: replicate_append_same [symmetric])
    ultimately have "yields (progress X s (ls @ concat (replicate (length (bs @ [b])) ?one)) ?c)
        (on_event U d (EPSSignal b) s2)"
      by simp
    then show ?thesis
    proof (rule yields_mono)
      fix s3
      assume p3: "progress X s (ls @ concat (replicate (length (bs @ [b])) ?one)) ?c s3"
      then have "current_state s3 = ?c"
        by (rule progress_state)
      with p3 c show "reported X s (ls @ concat (replicate (length (bs @ [b])) ?one)) (current_state s1) s3"
        by (simp add: reported_def)
    qed
  qed
  show ?case
    unfolding list.map map_append on_events_snoc
    by (rule yields_and_then [OF IH more])
qed

lemma on_events_append: "on_events U d (evs @ evs') s = and_then (on_events U d evs s) (on_events U d evs')"
proof (induction evs' rule: rev_induct)
  case Nil
  have "on_events U d [] = Inr"
    by (rule ext) simp
  then show ?case
    by (simp add: and_then_def split: sum.split)
next
  case (snoc ev evs')
  have "on_events U d (evs' @ [ev]) = (\<lambda>s. and_then (on_events U d evs' s) (on_event U d ev))"
    by (rule ext) simp
  with snoc show ?case
    by (simp add: and_then_assoc append_assoc [symmetric] del: append_assoc)
qed

lemma concat_replicate_one: "concat (replicate n [x]) = replicate n x"
  by (induction n) simp_all

text \<open>The state once detumbling is recorded, and the two steps from one script to the next.\<close>

definition detumbling :: "state \<Rightarrow> state" where
  "detumbling c = c\<lparr>adcs := (adcs c)\<lparr>requested := DETUMB, pointing := adcs_mode.NONE\<rparr>\<rparr>"

lemma detumbling_simps [simp]:
  "cruising (detumbling c) = cruising c" "attitude_scripts dir (detumbling c) = []"
  "battery_treshold (detumbling c) = battery_treshold c"
  by (simp_all add: detumbling_def attitude_scripts_def adcs_idle_def)

lemma detumbling_ended:
  assumes "spawns_ok U" and "3 \<le> d" and "ids_fresh s"
    and "actions s i = Some a" and "child a = Some p" and "process_wf p"
    and "kind a = TriggerDetumbling" and "request a = None" and "cruising (current_state s)"
  shows "yields (progress {i} s [] (detumbling (current_state s))) (process_exit (on_event U d) i 0 0 s)"
proof -
  let ?c = "detumbling (current_state s)"
  have c: "cruising ?c"
    using assms(9) by simp
  have "auto_rules (daemon (pl ?c)) ?c = []"
    unfolding cruising_auto [OF c] by (simp add: detumbling_def adcs_idle_def)
  then have first: "expected_state (ADCSreqSignal DETUMB) (current_state s) = ?c"
    "expected_scripts (scripts s) (ADCSreqSignal DETUMB) (current_state s) = []"
    using cruising_settle [OF c] by (simp_all add: expected_fact auto_scripts_def detumbling_def)
  have "0 \<noteq> SIGTERM"
    by (simp add: SIGTERM_def)
  from process_exit_expected [OF assms(1) cruising_calm [OF assms(9)] assms(3,2,4-6) this]
  show ?thesis
  proof (rule yields_mono)
    fix s1
    assume "completes i a 0 s s1"
    from completes_progress [OF this assms(8)] show "progress {i} s [] ?c s1"
      by (simp add: assms(7) exit_state_def exit_scripts_def exit_base_def first
          del: expected_state.simps expected_scripts.simps)
  qed
qed

lemma detumbling_reported:
  assumes "spawns_ok U" and "3 \<le> d" and "reported X s ls c s1"
  shows "yields (\<lambda>s'. reported X s (ls @ [scripts s @ ''trigger_sunpointing.sh'']) (current_state s') s' \<and>
      pointing (adcs (current_state s')) = DETUMB \<and>
      battery_treshold (current_state s') = battery_treshold c)
    (on_event U d (ADCSSignal DETUMB) s1)"
proof -
  let ?c = "update (ADCSSignal DETUMB) (current_state s1)"
  have p: "progress X s ls (current_state s1) s1" and c: "cruising (current_state s1)" "cruising ?c"
    "pointing (adcs ?c) = DETUMB" "battery_treshold ?c = battery_treshold c" "\<not> adcs_idle ?c"
    using assms(3) by (simp_all add: reported_def adcs_idle_def)
  have "yields (progress X s (ls @ [scripts s @ ''trigger_sunpointing.sh'']) ?c) (on_event U d (ADCSSignal DETUMB) s1)"
    using progress_step [OF p cruising_fact [OF assms(1,2), of "ADCSSignal DETUMB" s1 ?c]] progressD [OF p] c
    by (simp add: attitude_scripts_def)
  then show ?thesis
  proof (rule yields_mono)
    fix s2
    assume p2: "progress X s (ls @ [scripts s @ ''trigger_sunpointing.sh'']) ?c s2"
    then have "current_state s2 = ?c"
      by (rule progress_state)
    with p2 c show "reported X s (ls @ [scripts s @ ''trigger_sunpointing.sh'']) (current_state s2) s2 \<and>
        pointing (adcs (current_state s2)) = DETUMB \<and> battery_treshold (current_state s2) = battery_treshold c"
      by (simp add: reported_def)
  qed
qed

lemma on_events_three:
  "on_events U d (evs @ [ev] @ evs') s =
     and_then (on_events U d evs s) (\<lambda>s. and_then (on_event U d ev s) (on_events U d evs'))"
proof -
  have "on_events U d ([ev] @ evs') = (\<lambda>s. and_then (on_event U d ev s) (on_events U d evs'))"
    by (rule ext) (simp only: on_events_append, simp add: on_events_def)
  then show ?thesis
    by (simp only: on_events_append)
qed

subsection \<open>Runaway recursion\<close>

text \<open>
  If the flag that forces safemode is set in the current state, every fact that leaves
  the satellite in safemode makes the table ask for safemode again.
\<close>

lemma enforced_overflow:
  assumes "is_fact ev" and "enforced_safemode (current_state s)"
    and "shell_commands (computer (current_state s)) = []" and "ids_fresh s"
    and "safemode (update ev (current_state s)) \<noteq> 0"
  shows "on_event U d ev s = Inl StackOverflow"
  using assms
proof (induction d arbitrary: ev s)
  case 0
  then show ?case by simp
next
  case (Suc d)
  let ?c = "update ev (current_state s)" and ?a = "EnterSafeMode_new 3"
  let ?s = "s\<lparr>current_state := ?c, actions := (actions s)(next_id s \<mapsto> ?a),
    next_id := Suc (next_id s)\<rparr>"
  have tr: "transform_to ?c ?c = (?c, [?a])"
    using Suc.prems
    by (simp add: transform_to_split fact_frame Computer_transform_to_def request_rules_def
        nominal_def)
  have fresh: "ids_fresh ?s"
    using Suc.prems(4) sat.ok_add [of s ?a] by (simp add: add_action_fresh ids_fresh_def)
  have "on_event U d (SafeModeSignal 3) ?s = Inl StackOverflow"
    using Suc.prems(1-3) fresh by (intro Suc.IH) (simp_all add: fact_frame)
  moreover have "run_actions U oe [?a] (s\<lparr>current_state := ?c\<rparr>) =
      and_then (perform U oe (kind ?a) (next_id s) ?s) Inr" for oe
    using Suc.prems(4) run_actions_Cons [of "s\<lparr>current_state := ?c\<rparr>" U oe ?a "[]"]
    by (simp add: ids_fresh_def and_then_def split: sum.split)
  ultimately show ?case
    using Suc.prems(1) tr
    by (simp add: on_event_body_def state_copy_def perform_def EnterSafeMode_perform_def)
qed

text \<open>
  If no process can be started, an emergency in nominal operation makes the handler
  enter and leave safemode without end.
\<close>

definition spawns_fail :: "spawner \<Rightarrow> bool" where
  "spawns_fail U \<longleftrightarrow> (\<forall>h line. U h line \<noteq> 0)"

lemma calm_update_stays: "is_fact ev \<Longrightarrow> calm s \<Longrightarrow> calm (update ev s)"
  by (simp add: calm_fact)

lemma enter_safemode_rejected:
  assumes "spawns_fail U" and "calm (current_state s)" and "ids_fresh s"
    and "actions s i = Some a" and "kind a = EnterSafeMode r" and "r \<noteq> 0"
    and rec: "\<And>t. current_state t = (current_state s)\<lparr>safemode := r, maneuvermode := False\<rparr> \<Longrightarrow>
      ids_fresh t \<Longrightarrow> on_event U d (SafeModeSignal 0) t = Inl StackOverflow"
  shows "perform U (on_event U d) (kind a) i s = Inl StackOverflow"
proof (cases d)
  case 0
  then show ?thesis
    by (simp add: assms(5) perform_def EnterSafeMode_perform_def)
next
  case (Suc e)
  note quiet = quiet_sat.quiet [where U = U and d = e, folded Suc]
  let ?st = "(current_state s)\<lparr>safemode := r\<rparr>"
  obtain s1 where s1: "on_event U d (SafeModeSignal r) s = Inr s1" and p1: "progress {} s [] ?st s1"
    using quiet [of "SafeModeSignal r" s] assms(2,3,6) by (auto simp: nominal_def yields_iff)
  obtain s2 where s2: "on_event U d (ManeuverModeSignal False) s1 = Inr s2"
    and "progress {} s1 [] (?st\<lparr>maneuvermode := False\<rparr>) s2"
    using quiet [of "ManeuverModeSignal False" s1] progressD [OF p1] assms(2,6)
    by (auto simp: nominal_def yields_iff)
  with p1 have p2: "progress {} s [] (?st\<lparr>maneuvermode := False\<rparr>) s2"
    by (auto dest: progress_trans)
  have a2: "actions s2 i = Some a"
    by (rule progress_keeps [OF p2 assms(4)])
  define r' where "r' = U (spawn_log s2) (command_line (scripts s2) a)"
  have "r' \<noteq> 0"
    using assms(1) by (simp add: r'_def spawns_fail_def)
  have ok: "current_state (t\<lparr>replies := rs\<rparr>) = current_state t" "ids_fresh (t\<lparr>replies := rs\<rparr>) = ids_fresh t"
    for t rs by (simp_all add: ids_fresh_def)
  have "ids_fresh (launched i a s2 r')"
    using progressD [OF p2] a2 by (auto simp: launched_def ids_fresh_def)
  then have "on_event U d (SafeModeSignal 0) ((launched i a s2 r')\<lparr>replies := rs\<rparr>) = Inl StackOverflow"
    for rs
    using progressD [OF p2] by (intro rec) (simp_all only: ok, simp add: launched_def)
  then have "ShellCommand_exited (on_event U d) i (- 1) (launched i a s2 r') = Inl StackOverflow"
    by (simp add: ShellCommand_exited_def launched_def assms(5) action_done_def EnterSafeMode_done_def)
  then show ?thesis
    by (simp add: assms(5) perform_def EnterSafeMode_perform_def s1 s2
        shell_perform_fail [where U = U, OF a2 r'_def \<open>r' \<noteq> 0\<close>])
qed

lemma spawn_failure_overflow:
  assumes "spawns_fail U" and "is_fact ev" and "calm (current_state s)" and "ids_fresh s"
    and "nominal (update ev (current_state s))" and "emergency (update ev (current_state s))"
  shows "on_event U d ev s = Inl StackOverflow"
  using assms(2-)
proof (induction d arbitrary: ev s)
  case 0
  then show ?case by simp
next
  case (Suc d)
  let ?c = "update ev (current_state s)"
  obtain r as where r: "emergency_reason ?c = Some r" "r \<noteq> 0"
    and acts: "auto_rules (daemon (pl ?c)) ?c = EnterSafeMode_new r # as"
    using Suc.prems(4,5)
    by (auto simp: auto_rules_def emergency_iff_reason emergency_reason_def split: if_splits)
  let ?a = "EnterSafeMode_new r"
  let ?s = "s\<lparr>current_state := ?c, actions := (actions s)(next_id s \<mapsto> ?a),
    next_id := Suc (next_id s)\<rparr>"
  have tr: "transform_to ?c ?c = (?c, ?a # as)"
    using Suc.prems acts by (simp add: transform_to_self calm_fact)
  have fresh: "ids_fresh ?s"
    using Suc.prems(3) sat.ok_add [of s ?a] by (simp add: add_action_fresh ids_fresh_def)
  have "perform U (on_event U d) (kind ?a) (next_id s) ?s = Inl StackOverflow"
  proof (rule enter_safemode_rejected [OF assms(1) _ fresh])
    show "on_event U d (SafeModeSignal 0) t = Inl StackOverflow"
      if "current_state t = (current_state ?s)\<lparr>safemode := r, maneuvermode := False\<rparr>" "ids_fresh t" for t
      using that Suc.prems
      by (intro Suc.IH) (simp_all add: calm_fact nominal_def emergency_def)
  qed (use Suc.prems r in \<open>simp_all add: calm_fact\<close>)
  moreover have "run_actions U oe (?a # as) (s\<lparr>current_state := ?c\<rparr>) =
      and_then (perform U oe (kind ?a) (next_id s) ?s) (run_actions U oe as)" for oe
    using Suc.prems(3) run_actions_Cons [of "s\<lparr>current_state := ?c\<rparr>" U oe ?a as]
    by (simp add: ids_fresh_def)
  ultimately show ?case
    using Suc.prems(1) tr by (simp add: on_event_body_def state_copy_def)
qed

end
