(* ===== verification/Texts.thy ===== *)
theory Texts
  imports State
begin

text \<open>
  The texts of the program: what the hash-based parsers of \<^verbatim>\<open>src/state/\<close> accept, and the
  decimal numbers of the command line.
\<close>

subsection \<open>Upper case\<close>

lemma of_char_toupper:
  "(of_char (toupper c) :: nat) =
     (if 97 \<le> (of_char c :: nat) \<and> (of_char c :: nat) \<le> 122 then of_char c - 32 else of_char c)"
  by (auto simp: toupper_def Let_def)

lemma toupper_idem [simp]: "toupper (toupper c) = toupper c"
proof -
  have "\<not> (97 \<le> (of_char (toupper c) :: nat) \<and> (of_char (toupper c) :: nat) \<le> 122)"
    by (auto simp: of_char_toupper)
  then show ?thesis
    by (subst toupper_def) (simp only: Let_def if_False)
qed

lemma toupper_zero: "toupper c = CHR 0x00 \<Longrightarrow> c = CHR 0x00"
proof -
  assume "toupper c = CHR 0x00"
  then have "(of_char (toupper c) :: nat) = 0"
    by simp
  then have "(of_char c :: nat) = of_char CHR 0x00"
    by (auto simp: of_char_toupper split: if_splits)
  then show ?thesis
    by (simp only: of_char_eq_iff)
qed

lemma upcase_idem [simp]: "upcase (upcase s) = upcase s"
  by (induction s) (auto dest: toupper_zero)

subsection \<open>Names are parsed\<close>

text \<open>The names have distinct hashes, whether plain \<open>char\<close> is signed or not.\<close>

lemma str2state_name_for:
  "str2state True (adcs_name a) = a" "str2state False (adcs_name a) = a"
  by (cases a; hypsubst; code_simp)+

lemma str2temp_name_for:
  "str2temp True (temp_name t) = t" "str2temp False (temp_name t) = t"
  by (cases t; hypsubst; code_simp)+

lemma str2leop_name_for:
  "str2leop True (leop_name l) = l" "str2leop False (leop_name l) = l"
  by (cases l; hypsubst; code_simp)+

lemma str2bool_name_for:
  "str2bool True ''TRUE'' = Inr True" "str2bool True ''FALSE'' = Inr False"
  "str2bool False ''TRUE'' = Inr True" "str2bool False ''FALSE'' = Inr False"
  by code_simp+

lemma names_parsed [simp]:
  "str2state sc (adcs_name a) = a" "str2temp sc (temp_name t) = t"
  "str2leop sc (leop_name l) = l" "str2bool sc (bool_name b) = Inr b"
  by (cases sc; cases b; simp add: str2state_name_for str2temp_name_for str2leop_name_for
      str2bool_name_for)+

text \<open>The parsers that convert to upper case see only the upper-cased text.\<close>

lemma parse_upcase:
  assumes "upcase s = upcase s'"
  shows "str2state sc s = str2state sc s'" "str2leop sc s = str2leop sc s'"
    "str2bool sc s = str2bool sc s'"
  using assms by (simp_all add: str2state_def str2leop_def str2bool_def)

lemma names_upper [simp]:
  "upcase (adcs_name a) = adcs_name a" "upcase (leop_name l) = leop_name l"
  "upcase (bool_name b) = bool_name b"
proof -
  have "upcase ''TRUE'' = ''TRUE''" "upcase ''FALSE'' = ''FALSE''"
    by code_simp+
  then show "upcase (bool_name b) = bool_name b"
    by (cases b) simp_all
  show "upcase (adcs_name a) = adcs_name a"
    by (cases a; hypsubst; code_simp)
  show "upcase (leop_name l) = leop_name l"
    by (cases l; hypsubst; code_simp)
qed

text \<open>Texts that are no names and are taken for one: their hashes are those of names.\<close>

lemma collisions_for:
  "str2bool True ''T3TE'' = Inr True" "str2state True ''S4O'' = SUN" "str2temp True ''.J'' = OK"
  "str2leop True ''DO0{'' = DONE"
  "str2bool False ''T3TE'' = Inr True" "str2state False ''S4O'' = SUN" "str2temp False ''.J'' = OK"
  "str2leop False ''DO0{'' = DONE"
  by code_simp+

subsection \<open>Decimal numbers\<close>

lemma of_char_digit [simp]: "n < 10 \<Longrightarrow> (of_char (digit n) :: nat) = 48 + n"
  by (simp add: digit_def)

lemma is_digit_digit [simp]: "n < 10 \<Longrightarrow> is_digit (digit n)"
  by (simp add: is_digit_def)

lemma digits_value_snoc:
  "digits_value (cs @ [c]) = 10 * digits_value cs + (of_char c - 48)"
  by (simp add: digits_value_def)

lemma show_nat_digits: "\<forall>c\<in>set (show_nat n). is_digit c"
proof (induction n rule: show_nat.induct)
  case (1 n)
  then show ?case
    by (subst show_nat.simps) auto
qed

lemma show_nat_value: "digits_value (show_nat n) = int n"
proof (induction n rule: show_nat.induct)
  case (1 n)
  have dig: "(of_char (digit m) :: int) = 48 + int m" if "m < 10" for m
    using of_char_digit [OF that] by (metis of_nat_add of_nat_numeral of_nat_of_char)
  show ?case
  proof (cases "n < 10")
    case True
    then show ?thesis
      by (subst show_nat.simps) (simp add: digits_value_def dig)
  next
    case False
    then show ?thesis
      using 1 by (subst show_nat.simps) (simp add: digits_value_snoc dig zdiv_int zmod_int)
  qed
qed

lemma show_nat_nonempty [simp]: "show_nat n \<noteq> []"
  by (subst show_nat.simps) simp

lemma digit_not_space: "is_digit c \<Longrightarrow> \<not> is_space c \<and> c \<noteq> CHR ''-'' \<and> c \<noteq> CHR ''+''"
  by (auto simp: is_digit_def is_space_def Let_def)

lemma takeWhile_show_nat:
  "rest = [] \<or> \<not> is_digit (hd rest) \<Longrightarrow> takeWhile is_digit (show_nat n @ rest) = show_nat n"
  by (cases rest) (use show_nat_digits in \<open>auto simp: takeWhile_append2\<close>)

lemma stoi_digits:
  assumes "rest = [] \<or> \<not> is_digit (hd rest)" and "int n \<le> 2147483647"
  shows "stoi (show_nat n @ rest) = Inr (int n)"
    and "n \<noteq> 0 \<Longrightarrow> stoi (CHR ''-'' # show_nat n @ rest) = Inr (- int n)"
proof -
  obtain d ds where d: "show_nat n = d # ds"
    by (cases "show_nat n") auto
  then have dd: "is_digit d"
    using show_nat_digits [of n] by simp
  have tw: "takeWhile is_digit (d # ds @ rest) = show_nat n"
    using takeWhile_show_nat [OF assms(1), of n] by (simp add: d)
  have v: "digits_value (show_nat n) = int n"
    by (rule show_nat_value)
  show "stoi (show_nat n @ rest) = Inr (int n)"
    using digit_not_space [OF dd] tw v assms(2) by (simp add: stoi_def Let_def d)
  show "stoi (CHR ''-'' # show_nat n @ rest) = Inr (- int n)" if "n \<noteq> 0"
  proof -
    have "\<not> is_space CHR ''-''" by (simp add: is_space_def)
    then show ?thesis
      using tw v assms(2) by (simp add: stoi_def Let_def d)
  qed
qed

lemma stoi_show_int:
  assumes "- 2147483647 \<le> i" and "i \<le> 2147483647" and "rest = [] \<or> \<not> is_digit (hd rest)"
  shows "stoi (show_int i @ rest) = Inr i"
proof (cases "i < 0")
  case True
  then show ?thesis
    using stoi_digits(2) [OF assms(3), of "nat (- i)"] assms(1) by (simp add: show_int_def)
next
  case False
  then show ?thesis
    using stoi_digits(1) [OF assms(3), of "nat i"] assms(2) by (simp add: show_int_def)
qed

end
