(* ===== verification/Dbus.thy ===== *)
theory Dbus
  imports Mission Texts
begin

text \<open>
  The D-Bus front end, \<^verbatim>\<open>src/server/dbus.h\<close> and \<^verbatim>\<open>src/server/dbus.cpp\<close>: the methods and
  signals of the satellite, the beacon, the loop that serves the bus, and the connection from
  \<open>connect\<close> to \<open>close\<close>. sd-bus is a parameter: what \<open>sd_bus_message_read\<close> yields is a value \<open>int + 'a\<close>, the negative error
  or the argument read, and the messages that \<open>sd_bus_process\<close> dispatches are a list.
\<close>

subsection \<open>Methods\<close>

text \<open>
  The arguments of sd-bus's variadic functions as the code passes them: after the default
  promotions of C a truth value and a literal are an \<open>int\<close>, and a text is a pointer.
\<close>

datatype vararg = VInt int | VString string

text \<open>
  What a method sends back: a reply with a signature and the arguments that sd-bus reads
  with it, an array of a type, or nothing. \<open>ReturnError\<close> is a negative result handed to sd-bus.
\<close>

datatype bus_reply =
    Reply string "vararg list"
  | ReplyArray char "u8 list"
  | ReturnError int
  | NoReply

abbreviation reply_bool :: "bool \<Rightarrow> bus_reply" where
  "reply_bool b \<equiv> Reply ''b'' [VInt (if b then 1 else 0)]"

type_synonym 'a bus_read = "int + 'a"
type_synonym bus_method = "satellite \<Rightarrow> (bus_reply \<times> satellite) outcome"

definition dbus_exec :: "handler \<Rightarrow> string bus_read \<Rightarrow> bus_method" where
  "dbus_exec oe m s =
     (case m of
        Inl r \<Rightarrow> Inr (ReturnError r, s)
      | Inr cmdline \<Rightarrow>
          and_then (oe (Control (ShellCommandReq_new cmdline)) s) (\<lambda>s. Inr (Reply ''x'' [VInt 0], s)))"

definition dbus_safemode :: "bool \<Rightarrow> handler \<Rightarrow> string bus_read \<Rightarrow> bus_method" where
  "dbus_safemode sc oe m s =
     (case m of
        Inl r \<Rightarrow> Inr (reply_bool False, s)
      | Inr safemode_text \<Rightarrow>
          (case str2bool sc safemode_text of
             Inl e \<Rightarrow> Inr (reply_bool False, s)
           | Inr bsafe \<Rightarrow>
               and_then (oe (SafeModeReq ((if bsafe then 3 else 0) \<noteq> (0 :: int))) s)
                 (\<lambda>s. Inr (reply_bool True, s))))"

definition dbus_maneuvermode :: "bool \<Rightarrow> handler \<Rightarrow> string bus_read \<Rightarrow> bus_method" where
  "dbus_maneuvermode sc oe m s =
     (case m of
        Inl r \<Rightarrow> Inr (reply_bool False, s)
      | Inr maneuvermode_text \<Rightarrow>
          (case str2bool sc maneuvermode_text of
             Inl e \<Rightarrow> Inr (reply_bool False, s)
           | Inr bmaneuver \<Rightarrow>
               and_then (oe (ManeuverModeSignal bmaneuver) s) (\<lambda>s. Inr (reply_bool True, s))))"

definition dbus_manualmode :: "bool \<Rightarrow> handler \<Rightarrow> string bus_read \<Rightarrow> bus_method" where
  "dbus_manualmode sc oe m s =
     (case m of
        Inl r \<Rightarrow> Inr (reply_bool False, s)
      | Inr manualmode_text \<Rightarrow>
          (case str2bool sc manualmode_text of
             Inl e \<Rightarrow> Inr (reply_bool False, s)
           | Inr bmanual \<Rightarrow>
               and_then (oe (ManualModeReq bmanual) s) (\<lambda>s. Inr (reply_bool True, s))))"

text \<open>The ten bytes of the beacon, and the method that sends them.\<close>

definition beacon :: "state \<Rightarrow> u8 list" where
  "beacon s =
     [safemode s,
      (if manualmode s then 1 else 0),
      (if maneuvermode s then 1 else 0),
      ucast (battery_level (eps s) AND 0xFF),
      ucast (drop_bit 8 (battery_level (eps s))),
      word_of_nat (temp_value (all_temp (thm_c s))),
      word_of_nat (adcs_value (pointing (adcs s))),
      word_of_nat (adcs_value (requested (adcs s))),
      word_of_nat (daemon_value (daemon (pl s))),
      word_of_nat (leop_value (leop s))]"

text \<open>
  The results of creating the reply, appending to it and sending it are the arguments
  \<open>r1\<close>, \<open>r2\<close> and \<open>r3\<close>.
\<close>

definition getBeaconData :: "int \<Rightarrow> int \<Rightarrow> int \<Rightarrow> bus_method" where
  "getBeaconData r1 r2 r3 s =
     (if r1 < 0 then Inr (NoReply, s)
      else if r2 < 0 then Inr (NoReply, s)
      else if r3 < 0 then Inr (NoReply, s)
      else Inr (ReplyArray (CHR ''y'') (beacon (current_state s)), s))"

definition checkDaemon :: bus_method where
  "checkDaemon s = Inr (Reply ''y'' [VInt 0], s)"

definition checkHardware :: bus_method where
  "checkHardware s = Inr (Reply ''y'' [VInt 0], s)"

definition getVersion :: "string \<Rightarrow> int \<Rightarrow> int \<Rightarrow> int \<Rightarrow> bus_method" where
  "getVersion VERSION r1 r2 r3 s =
     (if r1 < 0 then Inr (NoReply, s)
      else if r2 < 0 then Inr (NoReply, s)
      else if r3 < 0 then Inr (NoReply, s)
      else Inr (Reply ''s'' [VString (''daemon='' @ VERSION)], s))"

text \<open>The method table that the object is registered with.\<close>

datatype method_id =
    Exec | SetSafemode | SetManeuvermode | SetManualmode
  | GetBeaconData | CheckDaemon | CheckHardware | GetVersion









definition call_method ::
    "bool \<Rightarrow> string \<Rightarrow> handler \<Rightarrow> method_id \<Rightarrow> string bus_read \<Rightarrow> int \<Rightarrow> int \<Rightarrow> int \<Rightarrow> bus_method" where
  "call_method sc VERSION oe f m r1 r2 r3 =
     (case f of
        Exec \<Rightarrow> dbus_exec oe m
      | SetSafemode \<Rightarrow> dbus_safemode sc oe m
      | SetManeuvermode \<Rightarrow> dbus_maneuvermode sc oe m
      | SetManualmode \<Rightarrow> dbus_manualmode sc oe m
      | GetBeaconData \<Rightarrow> getBeaconData r1 r2 r3
      | CheckDaemon \<Rightarrow> checkDaemon
      | CheckHardware \<Rightarrow> checkHardware
      | GetVersion \<Rightarrow> getVersion VERSION r1 r2 r3)"

subsection \<open>Signals\<close>

text \<open>
  \<open>watch_for_signals\<close>: the match rules, in the order in which they are added, with their
  handlers. A rule that sd-bus refuses is reported and left out.
\<close>

datatype signal_id =
    ThmStateChange | EpsChargeStateChange | LeopStateChange | PayloadConditionsNotFulfilled
  | PayloadMeasurementDone | PayloadConditionsFulfilled | AdcsStateReached

definition signal_matches :: "(string \<times> string \<times> signal_id) list" where
  "signal_matches =
     [(''moveii.thm'', ''thmStateChange'', ThmStateChange),
      (''moveii.eps'', ''epsChargeStateChange'', EpsChargeStateChange),
      (''moveii.leop'', ''leopStateChange'', LeopStateChange),
      (''moveii.pl'', ''payloadConditionsNotFulfilled'', PayloadConditionsNotFulfilled),
      (''moveii.pl'', ''payloadMeasurementDone'', PayloadMeasurementDone),
      (''moveii.pl'', ''payloadConditionsFulfilled'', PayloadConditionsFulfilled),
      (''moveii.adcs'', ''adcsStateReached'', AdcsStateReached)]"

definition watch_for_signals :: "(string \<Rightarrow> string \<Rightarrow> int) \<Rightarrow> (string \<times> string \<times> signal_id) list" where
  "watch_for_signals add_match = filter (\<lambda>(iface, member, _). \<not> add_match iface member < 0) signal_matches"


text \<open>
  The event a handler creates from the argument of the signal; none if the argument cannot
  be read. The text of \<open>m\<close> and the number of \<open>q\<close> are what reading with the signature
  \<open>s\<close> and \<open>q\<close> yields.
\<close>

definition signal_event :: "bool \<Rightarrow> signal_id \<Rightarrow> string bus_read \<Rightarrow> u16 bus_read \<Rightarrow> event option" where
  "signal_event sc f m q =
     (case f of
        ThmStateChange \<Rightarrow> (case m of Inl r \<Rightarrow> None | Inr thmlevel \<Rightarrow> Some (THMSignal (str2temp sc thmlevel)))
      | EpsChargeStateChange \<Rightarrow> (case q of Inl r \<Rightarrow> None | Inr bat \<Rightarrow> Some (EPSSignal bat))
      | LeopStateChange \<Rightarrow> (case m of Inl r \<Rightarrow> None | Inr l \<Rightarrow> Some (LEOPReq (str2leop sc l)))
      | PayloadConditionsNotFulfilled \<Rightarrow> Some (PayloadSignal IDLE)
      | PayloadMeasurementDone \<Rightarrow> Some (PayloadSignal IDLE)
      | PayloadConditionsFulfilled \<Rightarrow> Some (PayloadReq WANTMEASURE)
      | AdcsStateReached \<Rightarrow> (case m of Inl r \<Rightarrow> None | Inr a \<Rightarrow> Some (ADCSSignal (str2state sc a))))"

definition on_signal :: "bool \<Rightarrow> handler \<Rightarrow> signal_id \<Rightarrow> string bus_read \<Rightarrow> u16 bus_read \<Rightarrow>
    satellite \<Rightarrow> satellite outcome" where
  "on_signal sc oe f m q s = (case signal_event sc f m q of None \<Rightarrow> Inr s | Some ev \<Rightarrow> oe ev s)"

subsection \<open>Serving the bus\<close>

text \<open>
  One call of \<open>sd_bus_process\<close> takes the next message and dispatches it; \<open>Broken r\<close> is a
  call that fails with the negative result \<open>r\<close>. The object has the methods of the table,
  and the signals that match a rule reach its handler.
\<close>

datatype bus_item =
    Call method_id "string bus_read" int int int
  | Signal signal_id "string bus_read" "u16 bus_read"
  | Unrelated
  | Broken int

definition dispatch :: "bool \<Rightarrow> string \<Rightarrow> handler \<Rightarrow> bus_item \<Rightarrow> bus_method" where
  "dispatch sc VERSION oe it s =
     (case it of
        Call f m r1 r2 r3 \<Rightarrow> call_method sc VERSION oe f m r1 r2 r3 s
      | Signal f m q \<Rightarrow> and_then (on_signal sc oe f m q s) (\<lambda>s. Inr (NoReply, s))
      | _ \<Rightarrow> Inr (NoReply, s))"

text \<open>The loop of \<open>handle_dbus\<close>: the replies, the messages left and the satellite after it.\<close>

fun handle_dbus :: "bool \<Rightarrow> string \<Rightarrow> handler \<Rightarrow> bus_item list \<Rightarrow> satellite \<Rightarrow>
    (bus_reply list \<times> bus_item list \<times> satellite) outcome" where
  "handle_dbus sc VERSION oe [] s = Inr ([], [], s)"
| "handle_dbus sc VERSION oe (it # its) s =
     (case it of
        Broken r \<Rightarrow> Inr ([], its, s)
      | _ \<Rightarrow>
          and_then (dispatch sc VERSION oe it s)
            (\<lambda>(reply, s).
               and_then (handle_dbus sc VERSION oe its s)
                 (\<lambda>(replies, rest, s). Inr (reply # replies, rest, s))))"

text \<open>
  \<open>update_events\<close>: the events to poll for and, if sd-bus names a timeout, the time in
  milliseconds after which the bus is served again.
\<close>

definition dbus_update_events :: "u32 \<Rightarrow> u32 \<Rightarrow> u32 \<Rightarrow> u32 \<Rightarrow> int \<Rightarrow> nat \<Rightarrow> u32 \<times> nat option" where
  "dbus_update_events uvr uvw uvd bus_events timeout_result usec =
     (let new_events = poll_to_libuv_events uvr uvw bus_events;
          timer = (if timeout_result = 0 then Some (usec div 1000) else None);
          new_events = new_events OR uvd
      in (new_events, timer))"

subsection \<open>The connection\<close>

text \<open>
  The object \<open>DBusConnection\<close>. A library handle is null, in use, or released but still
  stored. \<open>timer_ready\<close> says whether the timer handle is initialised, \<open>bus_timer\<close> whether
  the timer runs and for how many milliseconds, \<open>watched\<close> the events the poll handle
  waits for while it is active. \<open>answers\<close> lists the replies sent, in order.
\<close>

datatype handle_state = Null | Live | Released

record dbus_connection =
  bus :: handle_state
  bus_slot :: handle_state
  timer_ready :: bool
  bus_timer :: "nat option"
  watched :: "u32 option"
  matches :: "(string \<times> string \<times> signal_id) list"
  answers :: "bus_reply list"

definition DBusConnection_new :: dbus_connection where
  "DBusConnection_new =
     \<lparr>bus = Null, bus_slot = Null, timer_ready = False, bus_timer = None, watched = None,
      matches = [], answers = []\<rparr>"

text \<open>
  The library's results, and one round of its callbacks: the messages that
  \<open>sd_bus_process\<close> takes, and what it then says about its socket and its timeout.
\<close>

record bus_env =
  open_system :: int
  add_object_vtable :: int
  request_name :: int
  add_match :: "string \<Rightarrow> string \<Rightarrow> int"
  uv_readable :: u32
  uv_writable :: u32
  uv_disconnect :: u32

record bus_round =
  bus_items :: "bus_item list"
  bus_events :: u32
  timeout_result :: int
  timeout_usec :: nat

definition update_bus_events :: "bus_env \<Rightarrow> bus_round \<Rightarrow> dbus_connection \<Rightarrow> dbus_connection" where
  "update_bus_events B rd conn =
     (let (new_events, timer) = dbus_update_events (uv_readable B) (uv_writable B) (uv_disconnect B)
            (bus_events rd) (timeout_result rd) (timeout_usec rd)
      in conn\<lparr>bus_timer := (case timer of None \<Rightarrow> bus_timer conn | Some ms \<Rightarrow> Some ms),
              watched := Some new_events\<rparr>)"

text \<open>A signal reaches its handler when its match rule was accepted.\<close>

definition deliverable :: "dbus_connection \<Rightarrow> bus_item \<Rightarrow> bus_item" where
  "deliverable conn it =
     (case it of
        Signal f m q \<Rightarrow> if f \<in> (snd \<circ> snd) ` set (matches conn) then it else Unrelated
      | _ \<Rightarrow> it)"

text \<open>\<open>handle_dbus\<close>: the loop over the messages, and the events for the next round.\<close>

definition serve_bus :: "bus_env \<Rightarrow> bool \<Rightarrow> string \<Rightarrow> handler \<Rightarrow> bus_round \<Rightarrow> dbus_connection \<Rightarrow>
    satellite \<Rightarrow> (dbus_connection \<times> satellite) outcome" where
  "serve_bus B sc VERSION oe rd conn s =
     and_then (handle_dbus sc VERSION oe (map (deliverable conn) (bus_items rd)) s)
       (\<lambda>(replies, _, s).
          Inr (update_bus_events B rd (conn\<lparr>answers := answers conn @ replies\<rparr>), s))"

text \<open>
  Releasing a handle of the library: a null handle is left alone, a handle that was released
  before is freed memory.
\<close>

definition unref :: "handle_state \<Rightarrow> handle_state outcome" where
  "unref h = (case h of Null \<Rightarrow> Inr Null | Live \<Rightarrow> Inr Released | Released \<Rightarrow> Inl UseAfterFree)"

text \<open>\<open>connect\<close>; the jump to \<open>clean_return\<close> is the function \<open>clean_return\<close>.\<close>

definition clean_return :: "dbus_connection \<Rightarrow> (int \<times> dbus_connection) outcome" where
  "clean_return conn =
     and_then (unref (bus_slot conn)) (\<lambda>slot.
       and_then (unref (bus conn)) (\<lambda>_. Inr (1, conn\<lparr>bus_slot := slot, bus := Null\<rparr>)))"

definition dbus_connect :: "bus_env \<Rightarrow> bool \<Rightarrow> string \<Rightarrow> handler \<Rightarrow> bus_round \<Rightarrow> dbus_connection \<Rightarrow>
    satellite \<Rightarrow> (int \<times> dbus_connection \<times> satellite) outcome" where
  "dbus_connect B sc VERSION oe rd conn s =
     (if open_system B < 0 then and_then (clean_return conn) (\<lambda>(r, conn). Inr (r, conn, s))
      else
        let conn = conn\<lparr>bus := Live\<rparr>
        in if add_object_vtable B < 0 then and_then (clean_return conn) (\<lambda>(r, conn). Inr (r, conn, s))
        else
          let conn = conn\<lparr>bus_slot := Live\<rparr>
          in if request_name B < 0 then and_then (clean_return conn) (\<lambda>(r, conn). Inr (r, conn, s))
          else
            let conn = conn\<lparr>timer_ready := True, bus_timer := None\<rparr>;
                conn = conn\<lparr>matches := matches conn @ watch_for_signals (add_match B)\<rparr>
            in and_then (serve_bus B sc VERSION oe rd conn s) (\<lambda>(conn, s). Inr (0, conn, s)))"

text \<open>
  \<open>close\<close>. The pointers keep their values; the timer handle must be initialised and not
  yet closed.
\<close>

definition dbus_close :: "dbus_connection \<Rightarrow> (int \<times> dbus_connection) outcome" where
  "dbus_close conn =
     (if \<not> timer_ready conn then Inl UninitRead
      else
        let conn = conn\<lparr>timer_ready := False, bus_timer := None\<rparr>;
            conn = conn\<lparr>watched := None\<rparr>
        in and_then (unref (bus_slot conn)) (\<lambda>slot.
             and_then (unref (bus conn)) (\<lambda>b. Inr (0, conn\<lparr>bus_slot := slot, bus := b\<rparr>))))"

text \<open>
  After a successful \<open>connect\<close> the connection can be closed once, and then waits for nothing
  any more; after a failed one it must not be closed.
\<close>

lemma serve_bus_handles:
  assumes "serve_bus B sc VERSION oe rd conn s = Inr (conn', s')"
  shows "bus conn' = bus conn \<and> bus_slot conn' = bus_slot conn \<and> timer_ready conn' = timer_ready conn"
  using assms by (auto simp: serve_bus_def update_bus_events_def outcome_simps case_prod_beta Let_def)

lemma bus_closes_once:
  assumes "dbus_connect B sc VERSION oe rd DBusConnection_new s = Inr (r, conn, s')"
  shows "if r = 0
    then \<exists>conn'. dbus_close conn = Inr (0, conn') \<and> watched conn' = None \<and> bus_timer conn' = None \<and>
      dbus_close conn' = Inl UninitRead
    else dbus_close conn = Inl UninitRead"
  using assms
  by (auto simp: dbus_connect_def clean_return_def unref_def DBusConnection_new_def dbus_close_def
      Let_def outcome_simps dest!: serve_bus_handles split: if_splits)

subsection \<open>Every message is an external event\<close>

definition item_event :: "bool \<Rightarrow> bus_item \<Rightarrow> event option" where
  "item_event sc it =
     (case it of
        Call Exec (Inr cmdline) _ _ _ \<Rightarrow> Some (Control (ShellCommandReq_new cmdline))
      | Call SetSafemode (Inr t) _ _ _ \<Rightarrow> map_option SafeModeReq (case str2bool sc t of Inl _ \<Rightarrow> None | Inr b \<Rightarrow> Some b)
      | Call SetManeuvermode (Inr t) _ _ _ \<Rightarrow>
          map_option ManeuverModeSignal (case str2bool sc t of Inl _ \<Rightarrow> None | Inr b \<Rightarrow> Some b)
      | Call SetManualmode (Inr t) _ _ _ \<Rightarrow>
          map_option ManualModeReq (case str2bool sc t of Inl _ \<Rightarrow> None | Inr b \<Rightarrow> Some b)
      | Signal f m q \<Rightarrow> signal_event sc f m q
      | _ \<Rightarrow> None)"

lemma item_event_external: "item_event sc it = Some ev \<Longrightarrow> external ev"
  by (auto simp: item_event_def signal_event_def
      split: bus_item.splits method_id.splits sum.splits signal_id.splits option.splits)

lemma dispatch_event:
  "\<exists>f. dispatch sc VERSION oe it s =
     and_then (case item_event sc it of None \<Rightarrow> Inr s | Some ev \<Rightarrow> oe ev s) (\<lambda>s. Inr (f s, s))"
proof (cases it)
  case (Call g m r1 r2 r3)
  then show ?thesis
    by (cases g; cases m)
      (auto simp: dispatch_def call_method_def item_event_def dbus_exec_def dbus_safemode_def
        dbus_maneuvermode_def dbus_manualmode_def getBeaconData_def checkDaemon_def
        checkHardware_def getVersion_def split: sum.split)
next
  case (Signal g m q)
  then show ?thesis
    by (auto simp: dispatch_def item_event_def on_signal_def split: option.split)
qed (auto simp: dispatch_def item_event_def)

lemma reachable_calm:
  assumes "reachable U args False leop0 s"
  shows "calm (current_state s)" and "ids_fresh s"
  using wf.reachable_inv [OF assms Satellite_new_wf]
  by (simp_all add: satellite_wf_def state_wf_def calm_def)

lemma dispatch_reachable:
  assumes "spawns_ok U" and "3 \<le> d" and "reachable U args False leop0 s"
  shows "yields (\<lambda>(_, s'). reachable U args False leop0 s') (dispatch sc VERSION (on_event U d) it s)"
proof -
  obtain f where f: "dispatch sc VERSION (on_event U d) it s =
      and_then (case item_event sc it of None \<Rightarrow> Inr s | Some ev \<Rightarrow> on_event U d ev s)
        (\<lambda>s. Inr (f s, s))"
    using dispatch_event by blast
  show ?thesis
  proof (cases "item_event sc it")
    case None
    with assms(3) show ?thesis by (simp add: f)
  next
    case (Some ev)
    then have ext: "external ev" by (rule item_event_external)
    obtain s' where "on_event U d ev s = Inr s'"
      using on_event_expected [OF assms(1) reachable_calm [OF assms(3)] assms(2), of ev]
      by (auto simp: yields_iff)
    with ext assms(3) show ?thesis
      by (auto simp: f Some intro: reachable.advance step.receive)
  qed
qed

text \<open>Whatever libuv does: a round of the bus that returns is a run of steps.\<close>

lemma dispatch_steps:
  assumes "dispatch sc VERSION (on_event U d) it s = Inr (reply, s')"
    and "reachable U args enforced0 leop0 s"
  shows "reachable U args enforced0 leop0 s'"
proof -
  obtain f where "dispatch sc VERSION (on_event U d) it s =
      and_then (case item_event sc it of None \<Rightarrow> Inr s | Some ev \<Rightarrow> on_event U d ev s)
        (\<lambda>s. Inr (f s, s))"
    using dispatch_event by blast
  with assms show ?thesis
    by (cases "item_event sc it")
      (auto simp: outcome_simps dest!: item_event_external intro: reachable.advance step.receive)
qed

lemma handle_dbus_Cons:
  assumes "\<nexists>r. it = Broken r"
  shows "handle_dbus sc VERSION oe (it # its) s =
    and_then (dispatch sc VERSION oe it s) (\<lambda>(reply, s).
      and_then (handle_dbus sc VERSION oe its s)
        (\<lambda>(replies, rest, s). Inr (reply # replies, rest, s)))"
  using assms by (cases it) simp_all

lemma handle_dbus_steps:
  assumes "handle_dbus sc VERSION (on_event U d) its s = Inr (rs, rest, s')"
    and "reachable U args enforced0 leop0 s"
  shows "reachable U args enforced0 leop0 s'"
  using assms
proof (induction its arbitrary: s rs)
  case (Cons it its)
  show ?case
  proof (cases "\<exists>r. it = Broken r")
    case False
    with Cons.prems(1) obtain reply s1 rs1
      where "dispatch sc VERSION (on_event U d) it s = Inr (reply, s1)"
        and "handle_dbus sc VERSION (on_event U d) its s1 = Inr (rs1, rest, s')"
      by (auto simp: handle_dbus_Cons outcome_simps simp del: handle_dbus.simps)
    with Cons show ?thesis
      by (blast dest: dispatch_steps)
  qed (use Cons.prems in auto)
qed simp

lemma serve_bus_steps:
  assumes "serve_bus B sc VERSION (on_event U d) rd conn s = Inr (conn', s')"
    and "reachable U args enforced0 leop0 s"
  shows "reachable U args enforced0 leop0 s'"
  using assms by (auto simp: serve_bus_def outcome_simps dest: handle_dbus_steps)

lemma dbus_connect_steps:
  assumes "dbus_connect B sc VERSION (on_event U d) rd conn s = Inr (r, conn', s')"
    and "reachable U args enforced0 leop0 s"
  shows "reachable U args enforced0 leop0 s'"
  using assms
  by (auto simp: dbus_connect_def Let_def outcome_simps dest: serve_bus_steps
      split: if_splits)

subsection \<open>Reading a beacon\<close>

text \<open>What a ground station makes of the ten bytes.\<close>

definition adcs_of_value :: "nat \<Rightarrow> adcs_mode option" where
  "adcs_of_value n =
     find (\<lambda>a. adcs_value a = n) [NONE, SLEEP, ATTDET, DETUMB, NADIR, SUN, FLASH, EXP, TEST, POWEROFF]"

definition temp_of_value :: "nat \<Rightarrow> overall_temp option" where
  "temp_of_value n = find (\<lambda>t. temp_value t = n) [OK, WARN, ALARM]"

definition daemon_of_value :: "nat \<Rightarrow> daemon_state option" where
  "daemon_of_value n = find (\<lambda>p. daemon_value p = n) [OFF, IDLE, WANTMEASURE, MEASURING]"

definition leop_of_value :: "nat \<Rightarrow> leop_seq option" where
  "leop_of_value n = find (\<lambda>l. leop_value l = n) [UNDEPLOYED, DEPLOYED, DONE]"

lemma of_value [simp]:
  "adcs_of_value (adcs_value a) = Some a" "temp_of_value (temp_value t) = Some t"
  "daemon_of_value (daemon_value p) = Some p" "leop_of_value (leop_value l) = Some l"
proof -
  show "adcs_of_value (adcs_value a) = Some a"
    by (cases a) (simp_all add: adcs_of_value_def)
  show "temp_of_value (temp_value t) = Some t"
    by (cases t) (simp_all add: temp_of_value_def)
  show "daemon_of_value (daemon_value p) = Some p"
    by (cases p) (simp_all add: daemon_of_value_def)
  show "leop_of_value (leop_value l) = Some l"
    by (cases l) (simp_all add: leop_of_value_def)
qed

definition battery_of_bytes :: "u8 \<Rightarrow> u8 \<Rightarrow> u16" where
  "battery_of_bytes lo hi = ucast lo OR push_bit 8 (ucast hi)"

lemma bit_255: "bit (255 :: int) n \<longleftrightarrow> n < 8"
proof -
  have "(255 :: int) = mask 8"
    by (simp add: mask_eq_exp_minus_1)
  then show ?thesis
    by (simp only: bit_mask_iff) auto
qed

lemma battery_of_bytes: "battery_of_bytes (ucast (b AND 0xFF)) (ucast (drop_bit 8 b)) = b"
  by (rule bit_word_eqI) (auto simp: battery_of_bytes_def bit_simps bit_255)

record beacon_view =
  seen_safemode :: u8
  seen_manualmode :: bool
  seen_maneuvermode :: bool
  seen_battery :: u16
  seen_temp :: overall_temp
  seen_pointing :: adcs_mode
  seen_requested :: adcs_mode
  seen_daemon :: daemon_state
  seen_leop :: leop_seq

fun read_beacon :: "u8 list \<Rightarrow> beacon_view option" where
  "read_beacon [sm, man, mnv, lo, hi, t, po, req, p, l] =
     (case (temp_of_value (unat t), adcs_of_value (unat po), adcs_of_value (unat req),
            daemon_of_value (unat p), leop_of_value (unat l)) of
        (Some t, Some po, Some req, Some p, Some l) \<Rightarrow>
          Some \<lparr>seen_safemode = sm, seen_manualmode = (man \<noteq> 0), seen_maneuvermode = (mnv \<noteq> 0),
                seen_battery = battery_of_bytes lo hi, seen_temp = t, seen_pointing = po,
                seen_requested = req, seen_daemon = p, seen_leop = l\<rparr>
      | _ \<Rightarrow> None)"
| "read_beacon _ = None"

lemma unat_values [simp]:
  "unat (word_of_nat (temp_value t) :: u8) = temp_value t"
  "unat (word_of_nat (adcs_value a) :: u8) = adcs_value a"
  "unat (word_of_nat (daemon_value p) :: u8) = daemon_value p"
  "unat (word_of_nat (leop_value l) :: u8) = leop_value l"
proof -
  show "unat (word_of_nat (adcs_value a) :: u8) = adcs_value a"
    by (cases a) simp_all
  show "unat (word_of_nat (temp_value t) :: u8) = temp_value t"
    by (cases t) simp_all
  show "unat (word_of_nat (daemon_value p) :: u8) = daemon_value p"
    by (cases p) simp_all
  show "unat (word_of_nat (leop_value l) :: u8) = leop_value l"
    by (cases l) simp_all
qed

subsection \<open>Properties\<close>

text \<open>
  Serving the bus never fails. In a reachable state, with processes that can be
  started, the loop of \<open>handle_dbus\<close> serves any sequence of method calls and signals,
  well-formed or not, up to the first failure of the bus, answers every message it serves,
  and leaves a reachable state.
\<close>

lemma bus_is_served:
  assumes "spawns_ok U" and "3 \<le> d" and "reachable U args False leop0 s"
  shows "yields (\<lambda>(replies, rest, s'). reachable U args False leop0 s' \<and>
      rest = drop 1 (dropWhile (\<lambda>it. \<forall>r. it \<noteq> Broken r) its) \<and>
      length replies = length (takeWhile (\<lambda>it. \<forall>r. it \<noteq> Broken r) its))
    (handle_dbus sc VERSION (on_event U d) its s)"
  using assms(3)
proof (induction its arbitrary: s)
  case Nil
  then show ?case by simp
next
  case (Cons it its)
  show ?case
  proof (cases "\<exists>r. it = Broken r")
    case True
    with Cons.prems show ?thesis by auto
  next
    case False
    note eq = handle_dbus_Cons [OF False]
    obtain reply s1 where "dispatch sc VERSION (on_event U d) it s = Inr (reply, s1)"
      and "reachable U args False leop0 s1"
      using dispatch_reachable [OF assms(1,2) Cons.prems, of sc VERSION it]
      by (auto simp: yields_iff)
    then show ?thesis
      using Cons.IH [of s1] False by (auto simp: eq yields_iff simp del: handle_dbus.simps)
  qed
qed

lemma bus_is_served_witness:
  "yields (\<lambda>(replies, rest, s). length replies = 2 \<and> rest = [Unrelated])
    (handle_dbus True ''1.0'' (on_event reliable 3)
      [Signal AdcsStateReached (Inr ''sun'') (Inl (- 1)), Call SetSafemode (Inr ''maybe'') 0 0 0,
       Broken (- 5), Unrelated] (Satellite_new arguments_default False DONE))"
  by (rule yields_mono [OF bus_is_served [OF reliable_ok order_refl reachable.start]]) auto

text \<open>
  C25: \<open>setSafemode\<close>. Assume that processes can be started, that the flag that forces safemode
  started cleared, and that the stack holds three levels. In every reachable state the method
  answers true exactly when \<open>str2bool\<close> accepts its text: that is, when the text has the hash of
  a truth value, as the names of the truth values have in any case, and some other texts.
  Then the state is the one specified for the request; asked to enter safemode, the satellite
  is in safemode afterwards, without manoeuvre mode. Otherwise nothing changes.
\<close>

theorem set_safemode_outcome:
  assumes "spawns_ok U" and "3 \<le> d" and "reachable U args False leop0 s"
  shows "yields (\<lambda>(reply, s').
      case str2bool sc t of
        Inl _ \<Rightarrow> reply = reply_bool False \<and> s' = s
      | Inr b \<Rightarrow> reply = reply_bool True \<and>
          current_state s' = expected_state (SafeModeReq b) (current_state s) \<and>
          (b \<longrightarrow> safemode (current_state s') \<noteq> 0 \<and> \<not> maneuvermode (current_state s')))
    (dbus_safemode sc (on_event U d) (Inr t) s)"
proof (cases "str2bool sc t")
  case (Inr b)
  let ?c = "current_state s"
  have entered: "safemode (expected_state (SafeModeReq True) ?c) \<noteq> 0 \<and>
      \<not> maneuvermode (expected_state (SafeModeReq True) ?c)"
    by (auto simp: settle_def emergency_iff_reason emergency_reason_def split: option.split if_splits)
  show ?thesis
    using on_event_expected [OF assms(1) reachable_calm [OF assms(3)] assms(2), of "SafeModeReq b"]
      entered
    by (cases b) (auto simp: dbus_safemode_def Inr yields_iff progress_def
        simp del: expected_state.simps expected_scripts.simps)
qed (simp add: dbus_safemode_def)

lemma set_safemode_outcome_witness:
  "yields (\<lambda>(reply, s). reply = reply_bool True \<and> safemode (current_state s) \<noteq> 0)
    (dbus_safemode True (on_event reliable 3) (Inr (bool_name True)) (Satellite_new arguments_default False DONE))"
  by (rule yields_mono [OF set_safemode_outcome [OF reliable_ok order_refl reachable.start]])
    (auto simp del: bool_name.simps)

text \<open>
  The reader of the beacon in the robot tests, \<^verbatim>\<open>test/keywords/horst_utils.py\<close>: it gives names
  to the fields and raises an \<open>AttributeError\<close> (\<open>None\<close>) if their number is wrong.
\<close>

definition horst_beacon_data :: "'a list \<Rightarrow> (string \<times> 'a) list option" where
  "horst_beacon_data raw_beacon =
     (let beacon_fields = [''safemode'', ''manualmode'', ''battery_msb'', ''battery_lsb'', ''thermal'',
            ''adcs_pointing'', ''adcs_requested'', ''payload'', ''LEOP'']
      in if length beacon_fields \<noteq> length raw_beacon then None
         else Some (zip beacon_fields raw_beacon))"

definition integer_from_bytes :: "int \<Rightarrow> int \<Rightarrow> int" where
  "integer_from_bytes msb lsb = push_bit 8 msb XOR lsb"

text \<open>What the beacon is to tell about a state.\<close>

definition beacon_view :: "state \<Rightarrow> beacon_view" where
  "beacon_view s =
     \<lparr>seen_safemode = safemode s, seen_manualmode = manualmode s,
      seen_maneuvermode = maneuvermode s, seen_battery = battery_level (eps s),
      seen_temp = all_temp (thm_c s), seen_pointing = pointing (adcs s),
      seen_requested = requested (adcs s), seen_daemon = daemon (pl s), seen_leop = leop s\<rparr>"

lemma beacon_read_back: "read_beacon (beacon s) = Some (beacon_view s)"
  by (simp add: beacon_def battery_of_bytes beacon_view_def)

lemma beacon_of_view: "beacon_view s = beacon_view t \<Longrightarrow> beacon s = beacon t"
  by (simp add: beacon_view_def beacon_def)

text \<open>The two bytes of the battery level, least significant first.\<close>

lemma battery_bytes:
  fixes b :: u16
  shows "uint (ucast (b AND 0xFF) :: u8) + 256 * uint (ucast (drop_bit 8 b) :: u8) = uint b"
    and "integer_from_bytes (uint h) (uint l) = 256 * uint (h :: u8) + uint (l :: u8)"
proof -
  have "(ucast (b AND 0xFF) :: u8) = ucast b"
    by (rule bit_word_eqI) (auto simp: bit_simps bit_255)
  then have low: "uint (ucast (b AND 0xFF) :: u8) = uint b mod 256"
    by (simp add: unsigned_ucast_eq take_bit_eq_mod)
  have "uint b < 65536"
    using unsigned_less [of b, where 'a = int] by simp
  then have "uint b div 256 < 256" and "0 \<le> uint b div 256"
    by (simp_all add: pos_imp_zdiv_nonneg_iff)
  moreover have "uint (drop_bit 8 b) = uint b div 256"
    by (simp add: drop_bit_eq_div uint_div)
  ultimately have "uint (ucast (drop_bit 8 b) :: u8) = uint b div 256"
    by (simp add: unsigned_ucast_eq take_bit_eq_mod mod_pos_pos_trivial)
  with low show "uint (ucast (b AND 0xFF) :: u8) + 256 * uint (ucast (drop_bit 8 b) :: u8) = uint b"
    by simp
  have "push_bit 8 (uint h) AND uint l = 0"
    by (auto simp: bit_eq_iff bit_simps dest: bit_imp_le_length)
  from disjunctive_add_eq_xor [OF this] show "integer_from_bytes (uint h) (uint l) = 256 * uint h + uint l"
    by (simp add: integer_from_bytes_def push_bit_eq_mult ac_simps)
qed

lemma length_beacon: "length (beacon s) = 10"
  by (simp only: beacon_def list.size)

lemma nth_fourth_fifth:
  "(x0 # x1 # x2 # x3 # xs) ! 3 = x3"
  "(x0 # x1 # x2 # x3 # x4 # xs) ! 4 = x4"
  by simp_all

lemma beacon_level:
  "beacon s ! 3 = ucast (battery_level (eps s) AND 0xFF)"
  "beacon s ! 4 = ucast (drop_bit 8 (battery_level (eps s)))"
  by (simp_all only: beacon_def nth_fourth_fifth)

text \<open>
  C26: the beacon and its readers. The ten bytes determine the modes, the battery level and the
  states of the components, and nothing else: two states send the same beacon exactly when
  these agree. The level is in the fourth and fifth byte, the less significant first. The
  reader of the robot tests takes no beacon of the program: it expects nine fields. Reading
  the two bytes of the level in its order, the more significant first, would be right only
  when they are equal.
\<close>

theorem beacon_roundtrip:
  "(beacon s = beacon t \<longleftrightarrow> beacon_view s = beacon_view t) \<and>
   integer_from_bytes (uint (beacon s ! 4)) (uint (beacon s ! 3)) = uint (battery_level (eps s)) \<and>
   horst_beacon_data (beacon s) = None \<and>
   (integer_from_bytes (uint (beacon s ! 3)) (uint (beacon s ! 4)) = uint (battery_level (eps s)) \<longleftrightarrow>
      beacon s ! 3 = beacon s ! 4)"
proof -
  let ?l = "beacon s ! 3" and ?h = "beacon s ! 4"
  have bytes: "uint ?l + 256 * uint ?h = uint (battery_level (eps s))"
    by (simp only: beacon_level battery_bytes(1))
  have "beacon s = beacon t \<longleftrightarrow> beacon_view s = beacon_view t"
    by (metis beacon_read_back beacon_of_view option.inject)
  moreover have "horst_beacon_data (beacon s) = None"
    by (simp add: horst_beacon_data_def Let_def length_beacon)
  moreover have "integer_from_bytes (uint ?h) (uint ?l) = uint (battery_level (eps s))"
    using bytes by (simp add: battery_bytes(2))
  moreover have "integer_from_bytes (uint ?l) (uint ?h) = uint (battery_level (eps s)) \<longleftrightarrow> ?l = ?h"
    unfolding battery_bytes(2) word_uint_eq_iff using bytes by linarith
  ultimately show ?thesis
    by simp
qed



end
