(* ===== verification/Loop.thy ===== *)
theory Loop
  imports Dbus S3tpSession
begin

text \<open>
  The whole program at run time: the object \<open>Satellite\<close> of \<^verbatim>\<open>src/satellite.h\<close> with its
  three parts, the satellite proper, the S3TP server and the D-Bus connection, its
  watchdog timer, and the libuv loop that calls them back. A run of the loop is a list of
  notifications, each handled to its end before the next one; libuv delivers a
  notification only while the handle behind it is active, so others are skipped.
\<close>

subsection \<open>The watchdog timer\<close>

text \<open>
  The constructor starts the timer when systemd asks for a watchdog with a period in
  microseconds; the pair is its timeout and its repeat interval, in milliseconds.
\<close>

definition watchdog_timer :: "nat \<Rightarrow> (nat \<times> nat) option" where
  "watchdog_timer watchdog_period =
     (if 0 < watchdog_period then Some (0, watchdog_period div 2 div 1000) else None)"

text \<open>
  When a libuv timer fires, in milliseconds after its start: at its timeout and, if its
  repeat interval is not zero, again after every interval.
\<close>

definition fires_at :: "nat \<times> nat \<Rightarrow> nat \<Rightarrow> bool" where
  "fires_at tm ms \<longleftrightarrow>
     (case tm of (timeout, interval) \<Rightarrow>
        if interval = 0 then ms = timeout else timeout \<le> ms \<and> (ms - timeout) mod interval = 0)"

subsection \<open>The program object\<close>

record program =
  satellite_part :: satellite
  s3tp_part :: s3tp_server
  dbus_part :: dbus_connection
  watchdog :: "(nat \<times> nat) option"

definition Program_new :: "nat \<Rightarrow> arguments \<Rightarrow> bool \<Rightarrow> leop_seq \<Rightarrow> program" where
  "Program_new watchdog_period a enforced0 leop0 =
     \<lparr>satellite_part = Satellite_new a enforced0 leop0, s3tp_part = S3TPServer_new (port a) (socketpath a),
      dbus_part = DBusConnection_new, watchdog = watchdog_timer watchdog_period\<rparr>"

text \<open>
  What the program runs on: libuv's processes, the S3TP library, sd-bus, the signedness of
  \<open>char\<close>, the version text, the size of the stack, and the result of \<open>uv_run\<close>.
\<close>

record platform =
  spawner :: spawner
  s3tp_lib :: s3tp_env
  bus_lib :: bus_env
  char_signed :: bool
  VERSION :: string
  stack_depth :: nat
  uv_run_result :: int

abbreviation handler_on :: "platform \<Rightarrow> handler" where
  "handler_on V \<equiv> on_event (spawner V) (stack_depth V)"

subsection \<open>Notifications\<close>

text \<open>The callbacks that the S3TP library makes while it reads from and writes to its socket.\<close>

datatype link_callback =
    DataReceived char string
  | Disconnected
  | BufferFull
  | BufferEmpty

definition link_callback :: "s3tp_env \<Rightarrow> link_callback \<Rightarrow> s3tp_server \<Rightarrow> s3tp_server outcome" where
  "link_callback E cb srv =
     (if \<not> channel srv then Inr srv
      else case cb of
             DataReceived g data \<Rightarrow> onDataReceived E g data srv
           | Disconnected \<Rightarrow> onDisconnected E srv
           | BufferFull \<Rightarrow> onBufferFull srv
           | BufferEmpty \<Rightarrow> onBufferEmpty E srv)"

fun link_callbacks :: "s3tp_env \<Rightarrow> link_callback list \<Rightarrow> s3tp_server \<Rightarrow> s3tp_server outcome" where
  "link_callbacks E [] srv = Inr srv"
| "link_callbacks E (cb # cbs) srv = and_then (link_callback E cb srv) (link_callbacks E cbs)"

datatype notification =
    BusReady bus_round
  | BusTimer bus_round
  | ActionExited id int int
  | WatchdogTick
  | LinkReady u32 "link_callback list" "link_callback list"
  | LinkTimer
  | CommandOutput bool int string
  | CommandExited int int
  | FreedHandle

fun for_link :: "notification \<Rightarrow> bool" where
  "for_link (LinkReady events incoming outgoing) = True"
| "for_link LinkTimer = True"
| "for_link (CommandOutput is_out n base) = True"
| "for_link (CommandExited status sig) = True"
| "for_link FreedHandle = True"
| "for_link _ = False"

text \<open>
  The notifications for the S3TP server: when they are delivered, and their handlers. A
  process that was freed while it ran is still in libuv's lists: when it exits or writes,
  libuv calls back into the freed object (\<open>FreedHandle\<close>).
\<close>

definition link_enabled :: "notification \<Rightarrow> s3tp_server \<Rightarrow> bool" where
  "link_enabled n srv =
     (case n of
        LinkReady events incoming outgoing \<Rightarrow> polling srv
      | LinkTimer \<Rightarrow> timer srv \<noteq> None
      | CommandOutput is_out nread base \<Rightarrow>
          (case process srv of None \<Rightarrow> False | Some p \<Rightarrow> reading p \<and> pipes_open p)
      | CommandExited status sig \<Rightarrow>
          (case process srv of None \<Rightarrow> False | Some p \<Rightarrow> running p)
      | FreedHandle \<Rightarrow> 0 < orphans srv
      | _ \<Rightarrow> False)"

definition link_notified :: "s3tp_env \<Rightarrow> notification \<Rightarrow> s3tp_server \<Rightarrow> s3tp_server outcome" where
  "link_notified E n srv =
     (if \<not> link_enabled n srv then Inr srv
      else case n of
             LinkReady events incoming outgoing \<Rightarrow>
               on_s3tp_event E (link_callbacks E incoming) (link_callbacks E outgoing) events srv
           | LinkTimer \<Rightarrow> on_timer E srv
           | CommandOutput is_out nread base \<Rightarrow> read_callback E is_out nread base srv
           | CommandExited status sig \<Rightarrow> process_exited E status sig srv
           | FreedHandle \<Rightarrow> Inl UseAfterFree
           | _ \<Rightarrow> Inr srv)"

text \<open>
  The notifications for the rest of the program. Both the poll handle and the timer of the
  bus call \<open>handle_dbus\<close>; the timer does not repeat.
\<close>

type_synonym control = "satellite \<times> dbus_connection"

definition control_enabled :: "(nat \<times> nat) option \<Rightarrow> notification \<Rightarrow> control \<Rightarrow> bool" where
  "control_enabled wd n c =
     (case n of
        BusReady rd \<Rightarrow> watched (snd c) \<noteq> None
      | BusTimer rd \<Rightarrow> bus_timer (snd c) \<noteq> None
      | ActionExited i status sig \<Rightarrow>
          (case actions (fst c) i of
             None \<Rightarrow> False
           | Some a \<Rightarrow> (case child a of None \<Rightarrow> False | Some p \<Rightarrow> running p))
      | WatchdogTick \<Rightarrow> wd \<noteq> None
      | _ \<Rightarrow> False)"

definition bus_round_served :: "platform \<Rightarrow> bus_round \<Rightarrow> control \<Rightarrow> control outcome" where
  "bus_round_served V rd c =
     and_then (serve_bus (bus_lib V) (char_signed V) (VERSION V) (handler_on V) rd (snd c) (fst c))
       (\<lambda>(conn, s). Inr (s, conn))"

definition control_notified :: "platform \<Rightarrow> (nat \<times> nat) option \<Rightarrow> notification \<Rightarrow> control \<Rightarrow> control outcome" where
  "control_notified V wd n c =
     (if \<not> control_enabled wd n c then Inr c
      else case n of
             BusReady rd \<Rightarrow> bus_round_served V rd c
           | BusTimer rd \<Rightarrow> bus_round_served V rd (fst c, (snd c)\<lparr>bus_timer := None\<rparr>)
           | ActionExited i status sig \<Rightarrow>
               and_then (process_exit (handler_on V) i status sig (fst c)) (\<lambda>s. Inr (s, snd c))
           | _ \<Rightarrow> Inr c)"

definition notified :: "platform \<Rightarrow> notification \<Rightarrow> program \<Rightarrow> program outcome" where
  "notified V n prog =
     (if for_link n
      then and_then (link_notified (s3tp_lib V) n (s3tp_part prog))
             (\<lambda>srv. Inr (prog\<lparr>s3tp_part := srv\<rparr>))
      else and_then (control_notified V (watchdog prog) n (satellite_part prog, dbus_part prog))
             (\<lambda>(s, conn). Inr (prog\<lparr>satellite_part := s, dbus_part := conn\<rparr>)))"

text \<open>A run of \<open>uv_run\<close>.\<close>

fun uv_loop :: "platform \<Rightarrow> notification list \<Rightarrow> program \<Rightarrow> program outcome" where
  "uv_loop V [] prog = Inr prog"
| "uv_loop V (n # ns) prog = and_then (notified V n prog) (uv_loop V ns)"

subsection \<open>Handlers keep to the runs of their parts\<close>

lemma link_callback_reachable:
  assumes "link_callback E cb srv = Inr srv'" and "server_reachable E pt sp srv"
  shows "server_reachable E pt sp srv'"
  using assms
  by (cases cb)
    (auto simp: link_callback_def split: if_splits intro: server_reachable.stepped server_step.intros)

lemma link_callbacks_reachable:
  "link_callbacks E cbs srv = Inr srv' \<Longrightarrow> server_reachable E pt sp srv \<Longrightarrow>
     server_reachable E pt sp srv'"
  by (induction cbs arbitrary: srv) (auto simp: outcome_simps dest: link_callback_reachable)

lemma link_notified_reachable:
  assumes "link_notified E n srv = Inr srv'" and "server_reachable E pt sp srv"
  shows "server_reachable E pt sp srv'"
proof (cases n)
  case (LinkReady events incoming outgoing)
  let ?E = "server_reachable E pt sp"
  have run: "?E t" if "(if c then link_callbacks E cbs s else Inr s) = Inr t" "?E s" for c cbs s t
    using that by (auto split: if_splits dest: link_callbacks_reachable)
  have upd: "?E t" if "(if channel s then update_events E s else Inr s) = Inr t" "?E s" for s t
    using that by (auto split: if_splits intro: server_reachable.stepped server_step.event_done)
  show ?thesis
  proof (cases "link_enabled n srv")
    case True
    with assms(1) have "on_s3tp_event E (link_callbacks E incoming) (link_callbacks E outgoing)
        events srv = Inr srv'"
      by (simp add: link_notified_def LinkReady)
    then obtain s1 s2 where
      "(if channel srv \<and> events AND UV_READABLE E \<noteq> 0 then link_callbacks E incoming srv else Inr srv) = Inr s1"
      "(if channel s1 \<and> events AND UV_WRITABLE E \<noteq> 0 then link_callbacks E outgoing s1 else Inr s1) = Inr s2"
      "(if channel s2 then update_events E s2 else Inr s2) = Inr srv'"
      unfolding on_s3tp_event_def and_then_eq_Inr by blast
    with assms(2) show ?thesis
      by (blast intro: run upd)
  qed (use assms in \<open>simp add: link_notified_def\<close>)
qed (use assms in \<open>auto simp: link_notified_def link_enabled_def split: if_splits option.splits
      intro: server_reachable.stepped server_step.intros\<close>)

lemma control_notified_reachable:
  assumes "control_notified V wd n (s, conn) = Inr (s', conn')"
    and "reachable (spawner V) args enforced0 leop0 s"
  shows "reachable (spawner V) args enforced0 leop0 s'"
  using assms
  by (cases n)
    (auto simp: control_notified_def control_enabled_def bus_round_served_def outcome_simps
      split: if_splits option.splits dest: serve_bus_steps intro: reachable.advance step.finish)

lemma notified_reachable:
  assumes "notified V n p = Inr q"
  shows "server_reachable (s3tp_lib V) pt sp (s3tp_part p) \<Longrightarrow>
      server_reachable (s3tp_lib V) pt sp (s3tp_part q)"
    and "reachable (spawner V) args enforced0 leop0 (satellite_part p) \<Longrightarrow>
      reachable (spawner V) args enforced0 leop0 (satellite_part q)"
  using assms
  by (auto simp: notified_def outcome_simps split: if_splits
      dest: link_notified_reachable control_notified_reachable)

lemma uv_loop_reachable:
  assumes "uv_loop V ns p = Inr q"
  shows "server_reachable (s3tp_lib V) pt sp (s3tp_part p) \<Longrightarrow>
      server_reachable (s3tp_lib V) pt sp (s3tp_part q)"
    and "reachable (spawner V) args enforced0 leop0 (satellite_part p) \<Longrightarrow>
      reachable (spawner V) args enforced0 leop0 (satellite_part q)"
  using assms
  by (induction ns arbitrary: p) (auto simp: outcome_simps dest: notified_reachable)

subsection \<open>The interface of two independent parts\<close>

text \<open>
  A state with two parts, and steps each of which is for one of them: the step returns
  when its part's step does, and leaves the other part alone.
\<close>

fun run_steps :: "('n \<Rightarrow> 'a \<Rightarrow> 'a outcome) \<Rightarrow> 'n list \<Rightarrow> 'a \<Rightarrow> 'a outcome" where
  "run_steps f [] a = Inr a"
| "run_steps f (n # ns) a = and_then (f n a) (run_steps f ns)"

locale two_parts =
  fixes left :: "'s \<Rightarrow> 'a"
    and right :: "'s \<Rightarrow> 'b"
    and mine :: "'n \<Rightarrow> bool"
    and lstep :: "'n \<Rightarrow> 'a \<Rightarrow> 'a outcome"
    and rstep :: "'n \<Rightarrow> 'b \<Rightarrow> 'b outcome"
    and step :: "'n \<Rightarrow> 's \<Rightarrow> 's outcome"
  assumes parts_eq: "left s = left t \<Longrightarrow> right s = right t \<Longrightarrow> s = t"
    and parts_ex: "\<exists>s. left s = a \<and> right s = b"
    and step_left: "mine n \<Longrightarrow> step n s = Inr t \<longleftrightarrow> lstep n (left s) = Inr (left t) \<and> right t = right s"
    and step_right: "\<not> mine n \<Longrightarrow> step n s = Inr t \<longleftrightarrow> rstep n (right s) = Inr (right t) \<and> left t = left s"
begin

lemma run_parts:
  "run_steps step ns s = Inr t \<longleftrightarrow>
     run_steps lstep (filter mine ns) (left s) = Inr (left t) \<and>
     run_steps rstep (filter (\<lambda>n. \<not> mine n) ns) (right s) = Inr (right t)"
proof (induction ns arbitrary: s)
  case Nil
  show ?case by (auto intro: parts_eq)
next
  case (Cons n ns)
  show ?case
  proof (cases "mine n")
    case True
    have "(\<exists>u. step n s = Inr u \<and> run_steps step ns u = Inr t) \<longleftrightarrow>
        (\<exists>a. lstep n (left s) = Inr a \<and> run_steps lstep (filter mine ns) a = Inr (left t)) \<and>
        run_steps rstep (filter (\<lambda>n. \<not> mine n) ns) (right s) = Inr (right t)"
      by (auto simp: step_left [OF True] Cons.IH) (metis parts_ex)
    with True show ?thesis
      by (simp add: and_then_eq_Inr)
  next
    case False
    have "(\<exists>u. step n s = Inr u \<and> run_steps step ns u = Inr t) \<longleftrightarrow>
        run_steps lstep (filter mine ns) (left s) = Inr (left t) \<and>
        (\<exists>b. rstep n (right s) = Inr b \<and> run_steps rstep (filter (\<lambda>n. \<not> mine n) ns) b = Inr (right t))"
      by (auto simp: step_right [OF False] Cons.IH) (metis parts_ex)
    with False show ?thesis
      by (simp add: and_then_eq_Inr)
  qed
qed

lemma run_shuffled:
  assumes "filter mine ns = filter mine ms"
    and "filter (\<lambda>n. \<not> mine n) ns = filter (\<lambda>n. \<not> mine n) ms"
  shows "run_steps step ns s = Inr t \<longleftrightarrow> run_steps step ms s = Inr t"
  by (simp add: run_parts assms)

end

text \<open>The S3TP server on one side, the satellite, its bus and its watchdog on the other.\<close>

definition control_part :: "program \<Rightarrow> control \<times> (nat \<times> nat) option" where
  "control_part prog = ((satellite_part prog, dbus_part prog), watchdog prog)"

definition control_step :: "platform \<Rightarrow> notification \<Rightarrow> control \<times> (nat \<times> nat) option \<Rightarrow>
    (control \<times> (nat \<times> nat) option) outcome" where
  "control_step V n = (\<lambda>(c, wd). and_then (control_notified V wd n c) (\<lambda>c. Inr (c, wd)))"

interpretation parts: two_parts s3tp_part control_part for_link
  "link_notified (s3tp_lib V)" "control_step V" "notified V" for V
proof
  show "\<exists>p. s3tp_part p = srv \<and> control_part p = c" for srv c
    by (rule exI [of _ "\<lparr>satellite_part = fst (fst c), s3tp_part = srv, dbus_part = snd (fst c), watchdog = snd c\<rparr>"])
      (simp add: control_part_def)
  show "notified V n p = Inr q \<longleftrightarrow>
      link_notified (s3tp_lib V) n (s3tp_part p) = Inr (s3tp_part q) \<and> control_part q = control_part p"
    if "for_link n" for n p q
    using that by (cases p; cases q) (auto simp: notified_def control_part_def outcome_simps)
  show "notified V n p = Inr q \<longleftrightarrow>
      control_step V n (control_part p) = Inr (control_part q) \<and> s3tp_part q = s3tp_part p"
    if "\<not> for_link n" for n p q
    using that by (cases p; cases q)
      (auto simp: notified_def control_step_def control_part_def outcome_simps)
qed (auto simp: control_part_def)

lemma uv_loop_steps: "uv_loop V ns = run_steps (notified V) ns"
  by (induction ns) auto

text \<open>The watchdog of the program does not change.\<close>

lemma control_steps:
  "run_steps (control_step V) ns (c, wd) = Inr (c', wd') \<longleftrightarrow>
     run_steps (control_notified V wd) ns c = Inr c' \<and> wd' = wd"
  by (induction ns arbitrary: c) (auto simp: control_step_def outcome_simps)

subsection \<open>The satellite's side never faults\<close>

lemma process_exit_survives:
  assumes "spawns_ok U" and "3 \<le> d" and "reachable U args False leop0 s"
    and "actions s i = Some a" and "child a = Some p" and "running p"
  shows "yields (reachable U args False leop0) (process_exit (on_event U d) i status sig s)"
proof -
  have "process_wf p"
    using wf.reachable_inv [OF assms(3) Satellite_new_wf] assms(4,5)
    by (auto simp: satellite_wf_def action_ok_def ran_def split: option.splits)
  then have "\<exists>s'. process_exit (on_event U d) i status sig s = Inr s'"
    using process_exit_sigterm [OF assms(4,5), where oe = "on_event U d"]
      process_exit_expected [OF assms(1) reachable_calm [OF assms(3)] assms(2,4,5)]
    by (cases "sig = SIGTERM") (simp_all add: yields_iff, blast+)
  then obtain s' where s': "process_exit (on_event U d) i status sig s = Inr s'"
    by blast
  from reachable.advance [OF assms(3) step.finish [OF assms(4-6) s']] s' show ?thesis
    by simp
qed

lemma serve_bus_survives:
  assumes "spawns_ok U" and "3 \<le> d" and "reachable U args False leop0 s"
  shows "yields (\<lambda>(conn', s'). reachable U args False leop0 s')
    (serve_bus B sc ver (on_event U d) rd conn s)"
proof -
  have "yields (\<lambda>(rs, rest, s'). reachable U args False leop0 s')
      (handle_dbus sc ver (on_event U d) its s)" for its
    using assms(3)
  proof (induction its arbitrary: s)
    case (Cons it its)
    show ?case
    proof (cases "\<exists>r. it = Broken r")
      case False
      obtain reply s1 where "dispatch sc ver (on_event U d) it s = Inr (reply, s1)"
        and "reachable U args False leop0 s1"
        using dispatch_reachable [OF assms(1,2) Cons.prems, of sc ver it] by (auto simp: yields_iff)
      then show ?thesis
        using Cons.IH [of s1]
        by (auto simp: handle_dbus_Cons [OF False] yields_iff simp del: handle_dbus.simps)
    qed (use Cons.prems in auto)
  qed simp
  then show ?thesis
    unfolding serve_bus_def by (rule yields_and_then) auto
qed

lemma control_survives:
  assumes "spawns_ok (spawner V)" and "3 \<le> stack_depth V"
    and "reachable (spawner V) args False leop0 (fst c)"
  shows "yields (\<lambda>c'. reachable (spawner V) args False leop0 (fst c')) (control_notified V wd n c)"
proof (cases "control_enabled wd n c")
  case True
  have served: "yields (\<lambda>c'. reachable (spawner V) args False leop0 (fst c')) (bus_round_served V rd (fst c, conn))"
    for rd conn
    unfolding bus_round_served_def
    by (rule yields_and_then [OF serve_bus_survives [OF assms(1,2)]]) (use assms(3) in auto)
  have exits: "yields (\<lambda>c'. reachable (spawner V) args False leop0 (fst c'))
      (and_then (process_exit (handler_on V) i status sig (fst c)) (\<lambda>s. Inr (s, snd c)))"
    if n: "n = ActionExited i status sig" for i status sig
  proof -
    obtain a p where "actions (fst c) i = Some a" "child a = Some p" "running p"
      using True by (auto simp: n control_enabled_def split: option.splits)
    from process_exit_survives [OF assms this] show ?thesis
      by (rule yields_and_then) simp
  qed
  show ?thesis
    using True assms(3) served [of _ "snd c"] served exits
    by (cases n) (auto simp: control_notified_def control_enabled_def)
qed (use assms(3) in \<open>simp add: control_notified_def\<close>)

lemma dbus_connect_survives:
  assumes "spawns_ok U" and "3 \<le> d" and "reachable U args False leop0 s"
  shows "yields (\<lambda>(r, conn, s'). reachable U args False leop0 s' \<and>
      (r = 0 \<longleftrightarrow> 0 \<le> open_system B \<and> 0 \<le> add_object_vtable B \<and> 0 \<le> request_name B))
    (dbus_connect B sc ver (on_event U d) rd DBusConnection_new s)"
proof (cases "0 \<le> open_system B \<and> 0 \<le> add_object_vtable B \<and> 0 \<le> request_name B")
  case True
  then show ?thesis
    by (auto simp: dbus_connect_def Let_def not_less intro!: yields_and_then [OF serve_bus_survives [OF assms]])
next
  case False
  with assms(3) show ?thesis
    by (auto simp: dbus_connect_def clean_return_def unref_def DBusConnection_new_def Let_def)
qed

lemma control_run_survives:
  assumes "spawns_ok (spawner V)" and "3 \<le> stack_depth V"
    and "reachable (spawner V) args False leop0 (fst c)"
  shows "yields (\<lambda>c'. reachable (spawner V) args False leop0 (fst c'))
    (run_steps (control_notified V wd) ns c)"
  using assms(3)
proof (induction ns arbitrary: c)
  case (Cons n ns)
  with control_survives [OF assms(1,2) Cons.prems, of wd n] show ?case
    by (auto elim: yields_and_then)
qed simp

text \<open>So a run of the loop returns exactly when the server's part of it does.\<close>

lemma uv_loop_returns:
  assumes "spawns_ok (spawner V)" and "3 \<le> stack_depth V"
    and "reachable (spawner V) args False leop0 (satellite_part prog)"
  shows "(\<exists>prog'. uv_loop V ns prog = Inr prog') \<longleftrightarrow>
    (\<exists>srv. run_steps (link_notified (s3tp_lib V)) (filter for_link ns) (s3tp_part prog) = Inr srv)"
proof -
  obtain s conn where c: "run_steps (control_notified V (watchdog prog)) (filter (\<lambda>n. \<not> for_link n) ns)
      (satellite_part prog, dbus_part prog) = Inr (s, conn)"
    using control_run_survives [OF assms(1,2), of args leop0 "(satellite_part prog, dbus_part prog)"
        "watchdog prog" "filter (\<lambda>n. \<not> for_link n) ns"] assms(3)
    by (auto simp: yields_iff)
  have "uv_loop V ns prog =
      Inr \<lparr>satellite_part = s, s3tp_part = srv, dbus_part = conn, watchdog = watchdog prog\<rparr>"
    if "run_steps (link_notified (s3tp_lib V)) (filter for_link ns) (s3tp_part prog) = Inr srv" for srv
    using that c by (simp add: uv_loop_steps parts.run_parts control_part_def control_steps)
  moreover have "run_steps (link_notified (s3tp_lib V)) (filter for_link ns) (s3tp_part prog) = Inr (s3tp_part prog')"
    if "uv_loop V ns prog = Inr prog'" for prog'
    using that by (simp add: uv_loop_steps parts.run_parts)
  ultimately show ?thesis
    by blast
qed

subsection \<open>Properties\<close>

text \<open>
  The front ends do not interfere. The result of any run of the loop is that of the
  notifications for the S3TP server, run alone on the server, and of all others, run alone
  on the satellite and its bus: however the two sequences are interleaved, the remote shell
  and the control of the satellite end in the same states.
\<close>

lemma front_ends_do_not_interfere:
  "uv_loop V ns prog = Inr prog' \<longleftrightarrow>
     run_steps (link_notified (s3tp_lib V)) (filter for_link ns) (s3tp_part prog) =
       Inr (s3tp_part prog') \<and>
     run_steps (control_notified V (watchdog prog)) (filter (\<lambda>n. \<not> for_link n) ns)
         (satellite_part prog, dbus_part prog) =
       Inr (satellite_part prog', dbus_part prog') \<and>
     watchdog prog' = watchdog prog"
  by (simp add: uv_loop_steps parts.run_parts control_part_def control_steps)

definition platform0 :: platform where
  "platform0 =
     \<lparr>spawner = reliable, s3tp_lib = link_env,
      bus_lib = \<lparr>open_system = 0, add_object_vtable = 0, request_name = 0, add_match = (\<lambda>_ _. 0),
                 uv_readable = 1, uv_writable = 2, uv_disconnect = 4\<rparr>,
      char_signed = True, VERSION = ''1.0'', stack_depth = 3, uv_run_result = 0\<rparr>"

lemma platform0_simps [simp]:
  "spawner platform0 = reliable" "stack_depth platform0 = 3" "s3tp_lib platform0 = link_env"
  "bus_lib platform0 =
     \<lparr>open_system = 0, add_object_vtable = 0, request_name = 0, add_match = (\<lambda>_ _. 0),
      uv_readable = 1, uv_writable = 2, uv_disconnect = 4\<rparr>" "uv_run_result platform0 = 0"
  by (simp_all add: platform0_def)

lemma Program_new_simps [simp]:
  "satellite_part (Program_new wd a e l) = Satellite_new a e l"
  "s3tp_part (Program_new wd a e l) = S3TPServer_new (port a) (socketpath a)"
  "dbus_part (Program_new wd a e l) = DBusConnection_new"
  "watchdog (Program_new wd a e l) = watchdog_timer wd"
  by (simp_all add: Program_new_def)

text \<open>
  C27: the watchdog is notified in time. For every watchdog period of systemd, the timer
  fires in every window of one period exactly when the period is at least two
  milliseconds; a shorter one makes the repeat interval zero, and the timer fires once.
\<close>

theorem watchdog_notified_in_time:
  "watchdog_timer period = Some tm \<Longrightarrow>
     (\<forall>t. \<exists>ms. fires_at tm ms \<and> t \<le> 1000 * ms \<and> 1000 * ms < t + period) \<longleftrightarrow> 2000 \<le> period"
proof -
  define i where "i = period div 2 div 1000"
  assume "watchdog_timer period = Some tm"
  then have tm: "tm = (0, i)" and pos: "0 < period"
    by (auto simp: watchdog_timer_def i_def split: if_splits)
  have i: "i = period div 2000"
    by (simp add: i_def div_mult2_eq [symmetric])
  show ?thesis
  proof (cases "i = 0")
    case True
    then have "\<not> 1 \<le> 1000 * ms" if "fires_at tm ms" for ms
      using that by (simp add: tm fires_at_def)
    moreover have "\<not> 2000 \<le> period"
      using True by (simp add: i div_eq_0_iff)
    ultimately show ?thesis
      by blast
  next
    case False
    then have le: "2000 \<le> period" "2000 * i \<le> period"
      by (auto simp: i div_eq_0_iff not_less)
    have "\<exists>ms. fires_at tm ms \<and> t \<le> 1000 * ms \<and> 1000 * ms < t + period" for t
    proof -
      define N M where "N = t + 1000 * i - 1" and "M = 1000 * i"
      define k where "k = N div M"
      have pos: "0 < M"
        using False by (simp add: M_def)
      have "N < M + k * M" and "k * M \<le> N"
        using dividend_less_div_times [OF pos, of N] by (simp_all add: k_def)
      then have "t \<le> 1000 * (k * i)" and "1000 * (k * i) < t + period"
        using le False by (simp_all add: N_def M_def algebra_simps)
      then show ?thesis
        by (intro exI [of _ "k * i"]) (simp add: tm fires_at_def)
    qed
    with le show ?thesis
      by blast
  qed
qed

lemma watchdog_notified_in_time_witness:
  "watchdog_timer 3000000 = Some (0, 1500) \<and>
     (\<exists>ms. fires_at (0, 1500) ms \<and> 3333333 \<le> 1000 * ms \<and> 1000 * ms < 6333333)"
proof -
  have "watchdog_timer 3000000 = Some (0, 1500)"
    by (simp add: watchdog_timer_def)
  moreover from watchdog_notified_in_time [OF this]
  have "\<forall>t. \<exists>ms. fires_at (0, 1500) ms \<and> t \<le> 1000 * ms \<and> 1000 * ms < t + 3000000"
    by simp
  from spec [OF this, of 3333333]
  have "\<exists>ms. fires_at (0, 1500) ms \<and> 3333333 \<le> 1000 * ms \<and> 1000 * ms < 6333333"
    by simp
  ultimately show ?thesis by blast
qed

end
