(* ===== verification/Horst.thy ===== *)
theory Horst
  imports Loop "HOL-Library.Sublist"
begin

text \<open>
  The program itself: \<^verbatim>\<open>src/horst.cpp\<close>, \<^verbatim>\<open>src/args.h\<close> and \<open>Satellite::run\<close>. The
  library function \<open>getopt_long\<close> is the argument \<open>G\<close>: for the short options, the long
  options and the words of the command line, the list of options it finds, each with its
  character code and its argument, up to the result \<open>-1\<close>. The shell is the argument \<open>sh\<close>
  of \<open>exec\<close>.
\<close>

subsection \<open>The command line\<close>

type_synonym long_option = "string \<times> bool \<times> char"
type_synonym getopt = "string \<Rightarrow> long_option list \<Rightarrow> string list \<Rightarrow> (int \<times> string) list"

definition opt :: "char \<Rightarrow> int" where
  "opt c = of_char c"

definition long_options :: "long_option list" where
  "long_options =
     [(''battery'', True, CHR ''b''), (''help'', False, CHR ''h''), (''manual'', False, CHR ''m''),
      (''port'', True, CHR ''p''), (''scripts'', True, CHR ''s''), (''socket'', True, CHR ''S'')]"

definition optstring :: string where
  "optstring = ''b:hmp:s:''"

datatype parse_result =
    Parsed arguments
  | Exits int
  | Throws std_exception

fun parse_options :: "(int \<times> string) list \<Rightarrow> arguments \<Rightarrow> parse_result" where
  "parse_options [] a = Parsed a"
| "parse_options ((c, optarg) # os) a =
     (if c = - 1 then Parsed a
      else if c = 0 then parse_options os a
      else if c = opt CHR ''b'' then
        (case stoi optarg of
           Inl e \<Rightarrow> Throws e
         | Inr v \<Rightarrow> parse_options os (a\<lparr>arg_battery_treshold := word_of_int v\<rparr>))
      else if c = opt CHR ''h'' then Exits 0
      else if c = opt CHR ''m'' then parse_options os (a\<lparr>startmanual := True\<rparr>)
      else if c = opt CHR ''p'' then
        (case stoi optarg of
           Inl e \<Rightarrow> Throws e
         | Inr v \<Rightarrow> parse_options os (a\<lparr>port := v\<rparr>))
      else if c = opt CHR ''s'' then parse_options os (a\<lparr>arg_scripts := optarg\<rparr>)
      else if c = opt CHR ''S'' then parse_options os (a\<lparr>socketpath := optarg\<rparr>)
      else if c = opt CHR ''?'' then Exits 1
      else Exits 1)"

definition parse_args :: "getopt \<Rightarrow> string list \<Rightarrow> parse_result" where
  "parse_args G argv = parse_options (G optstring long_options argv) arguments_default"

text \<open>The text that the options \<open>-h\<close> and \<open>?\<close> print before the program exits.\<close>

definition show_help :: "string \<Rightarrow> string" where
  "show_help progname =
     ''horst'' @ [CHR 0x0A] @ ''MOVE-II satellite manager'' @ [CHR 0x0A, CHR 0x0A] @
     ''usage: '' @ progname @
     ''[-b|--battery=TRESHOLD] [-h|--help] [-m|--manual] [-p|--port=LISTENPORT] '' @
     ''[-S|--socket=SOCKETPATH] [-s|--scripts=PATH]'' @ [CHR 0x0A, CHR 0x0A]"

subsection \<open>The run\<close>

text \<open>
  \<open>Satellite::run\<close>: the first result is what the process returns. \<open>rd\<close> is the first round of
  the bus, which \<open>connect\<close> serves itself, and \<open>ns\<close> what the event loop is notified of.
\<close>

definition Satellite_run :: "platform \<Rightarrow> bus_round \<Rightarrow> notification list \<Rightarrow> program \<Rightarrow>
    (int \<times> program) outcome" where
  "Satellite_run V rd ns prog =
     and_then
       (dbus_connect (bus_lib V) (char_signed V) (VERSION V) (handler_on V) rd
          (dbus_part prog) (satellite_part prog))
       (\<lambda>(r, conn, s).
          let prog = prog\<lparr>satellite_part := s, dbus_part := conn\<rparr>
          in if r \<noteq> 0 then Inr (1, prog)
             else and_then (start (s3tp_lib V) (s3tp_part prog))
                    (\<lambda>(_, srv). and_then (uv_loop V ns (prog\<lparr>s3tp_part := srv\<rparr>))
                       (\<lambda>prog. Inr (uv_run_result V, prog))))"

text \<open>The answer of \<open>check_leop.sh\<close>.\<close>

definition check_leop :: "(string \<Rightarrow> u32 option) \<Rightarrow> arguments \<Rightarrow> arguments" where
  "check_leop sh a =
     (let r = exec sh (arg_scripts a @ ''check_leop.sh'')
      in if r = 0 then a\<lparr>arg_leop := DONE\<rparr>
         else if r = 1 then a\<lparr>arg_leop := UNDEPLOYED\<rparr>
         else a\<lparr>arg_leop := DEPLOYED\<rparr>)"

lemma check_leop_simps [simp]:
  "port (check_leop sh a) = port a" "socketpath (check_leop sh a) = socketpath a"
  by (simp_all add: check_leop_def Let_def)

text \<open>
  \<open>run\<close>: the exit status and, if it came that far, the program object. The commands run
  before the satellite exists are the third component.
\<close>

definition horst_run ::
    "getopt \<Rightarrow> (string \<Rightarrow> u32 option) \<Rightarrow> platform \<Rightarrow> nat \<Rightarrow> bool \<Rightarrow> leop_seq \<Rightarrow> bus_round \<Rightarrow>
     notification list \<Rightarrow> string list \<Rightarrow> (int \<times> program option \<times> string list) outcome" where
  "horst_run G sh V watchdog_period enforced0 leop0 rd ns argv =
     (case parse_args G argv of
        Exits n \<Rightarrow> Inr (n, None, [])
      | Throws e \<Rightarrow> Inr (2, None, [])
      | Parsed a \<Rightarrow>
          let a = check_leop sh a
          in and_then (Satellite_run V rd ns (Program_new watchdog_period a enforced0 leop0))
               (\<lambda>(ret, prog). Inr (ret, Some prog,
                  [arg_scripts a @ ''check_leop.sh'', arg_scripts a @ ''startup.sh''])))"

subsection \<open>Lemmas\<close>

lemma exec_none: "sh c = None \<Longrightarrow> exec sh c = 0"
  by (simp add: exec_def wexitstatus_def)

text \<open>A wait status has the exit code in its second byte, and the signal in its first.\<close>

lemma wexitstatus_signalled [simp]: "wexitstatus (w AND 0xFF) = 0"
proof -
  have "(w AND 0xFF) AND 0xFF00 = w AND (0xFF AND 0xFF00)"
    by (rule and.assoc)
  then show ?thesis
    by (simp add: wexitstatus_def)
qed

lemma bit_ff00: "bit (0xFF00 :: int) n \<longleftrightarrow> 8 \<le> n \<and> n < 16"
proof -
  have "(0xFF00 :: int) = push_bit 8 (mask 8)"
    by (simp add: mask_eq_exp_minus_1 push_bit_eq_mult)
  then show ?thesis
    by (simp only: bit_push_bit_iff bit_mask_iff) auto
qed

lemma wexitstatus_exited [simp]: "wexitstatus (push_bit 8 (ucast (code :: u8))) = ucast code"
  by (rule bit_word_eqI) (auto simp: wexitstatus_def bit_simps bit_ff00 bit_255 dest: bit_imp_le_length)

lemma ucast_u8_zero [simp]: "(ucast (code :: u8) :: u32) = 0 \<longleftrightarrow> code = 0"
  by transfer simp

lemma ucast_u8_one [simp]: "(ucast (code :: u8) :: u32) = 1 \<longleftrightarrow> code = 1"
  by transfer simp

lemma exec_exited: "sh c = Some (push_bit 8 (ucast code)) \<Longrightarrow> exec sh c = ucast (code :: u8)"
  using wexitstatus_exited [of code] by (simp only: exec_def Let_def option.case)

lemma exec_signalled: "sh c = Some (w AND 0xFF) \<Longrightarrow> exec sh c = 0"
  using wexitstatus_signalled [of w] by (simp only: exec_def Let_def option.case)

lemma opt_distinct [simp]:
  "opt CHR ''b'' = 98" "opt CHR ''h'' = 104" "opt CHR ''m'' = 109" "opt CHR ''p'' = 112"
  "opt CHR ''s'' = 115" "opt CHR ''S'' = 83" "opt CHR ''?'' = 63"
  by (simp_all add: opt_def)

subsection \<open>Properties\<close>

text \<open>How \<open>check_leop.sh\<close> can end: not started, killed by a signal, or with an exit code.\<close>

datatype script_end = NotStarted | Signalled u32 | ExitCode u8

fun shell_answer :: "script_end \<Rightarrow> u32 option" where
  "shell_answer NotStarted = None"
| "shell_answer (Signalled w) = Some (w AND 0xFF)"
| "shell_answer (ExitCode code) = Some (push_bit 8 (ucast code))"

text \<open>
  C38: the LEOP phase at the start. The exit code 0 of the script means that LEOP is done
  and 1 that it has not begun; but a script that could not be started, or was killed by a
  signal, also reads as done.
\<close>

theorem leop_phase_at_start:
  assumes "sh (arg_scripts a @ ''check_leop.sh'') = shell_answer e"
  shows "arg_leop (check_leop sh a) =
    (case e of
       NotStarted \<Rightarrow> DONE
     | Signalled w \<Rightarrow> DONE
     | ExitCode code \<Rightarrow> if code = 0 then DONE else if code = 1 then UNDEPLOYED else DEPLOYED)"
  using assms
  by (cases e) (simp_all add: check_leop_def Let_def exec_none exec_signalled exec_exited)

lemma leop_phase_at_start_witness:
  "arg_leop (check_leop (\<lambda>_. None) arguments_default) = DONE"
  by (subst leop_phase_at_start [where e = NotStarted]) simp_all

text \<open>
  The threshold on the command line. A decimal number in the range of \<open>int\<close> after
  \<open>-b\<close> is the battery threshold modulo 65536, whatever follows the digits; the other
  options are parsed as if it were not there.
\<close>

lemma battery_option:
  assumes "- 2147483647 \<le> i" and "i \<le> 2147483647" and "junk = [] \<or> \<not> is_digit (hd junk)"
  shows "parse_options ((opt CHR ''b'', show_int i @ junk) # os) a =
    parse_options os (a\<lparr>arg_battery_treshold := word_of_int i\<rparr>)"
  using stoi_show_int [OF assms] by simp

lemma battery_option_witness:
  "parse_options [(98, ''70000 mV'')] arguments_default =
     Parsed (arguments_default\<lparr>arg_battery_treshold := 4464\<rparr>)"
proof -
  have "digit 7 = CHR ''7''" and "digit 0 = CHR ''0''"
    by code_simp+
  then have "show_int 70000 = ''70000''"
    by (simp add: show_int_def show_nat.simps)
  with battery_option [of 70000 "'' mV''" "[]" arguments_default] show ?thesis
    by (simp add: is_digit_def)
qed

text \<open>The help text announces an option that the option string does not have.\<close>

lemma help_announces_socket_option:
  "sublist ''-S'' (show_help progname) \<and> CHR ''S'' \<notin> set optstring"
proof -
  have "show_help progname =
      (''horst'' @ [CHR 0x0A] @ ''MOVE-II satellite manager'' @ [CHR 0x0A, CHR 0x0A] @
       ''usage: '' @ progname @
       ''[-b|--battery=TRESHOLD] [-h|--help] [-m|--manual] [-p|--port=LISTENPORT] ['') @
      ''-S'' @ (''|--socket=SOCKETPATH] [-s|--scripts=PATH]'' @ [CHR 0x0A, CHR 0x0A])"
    by (simp add: show_help_def)
  then have "sublist ''-S'' (show_help progname)"
    unfolding sublist_def by blast
  then show ?thesis
    by (simp add: optstring_def)
qed

text \<open>
  The short option \<open>-S\<close>, which the help text announces, ends the program. With the
  documented behaviour of \<open>getopt_long\<close> on a character that is not in its option string,
  parsing exits with status 1.
\<close>

lemma short_socket_option_rejected:
  assumes "\<And>os ls c r. c \<notin> set os \<Longrightarrow> c \<noteq> CHR ''-'' \<Longrightarrow> \<exists>rest. G os ls ([CHR ''-'', c] # r) = (opt CHR ''?'', []) # rest"
  shows "parse_args G (''-S'' # argv) = Exits 1"
proof -
  have "CHR ''S'' \<notin> set optstring" and "CHR ''S'' \<noteq> CHR ''-''"
    by (simp_all add: optstring_def)
  from assms [OF this] obtain rest where
    "G optstring long_options (''-S'' # argv) = (opt CHR ''?'', []) # rest"
    by blast
  then show ?thesis
    by (simp add: parse_args_def)
qed

lemma short_socket_option_rejected_witness:
  "parse_args (\<lambda>os ls argv. case argv of ([d, c] # r) \<Rightarrow> if c \<in> set os then [] else [(63, [])] | _ \<Rightarrow> [])
     [''-S'', ''/tmp/s3tp''] = Exits 1"
  by (rule short_socket_option_rejected) simp

lemma run_returns:
  assumes "spawns_ok (spawner V)" and "3 \<le> stack_depth V" and "parse_args G argv = Parsed a"
    and "start (s3tp_lib V) (S3TPServer_new (port a) (socketpath a)) = Inr (b, srv)"
  shows "(\<exists>ret prog ls. horst_run G sh V wd False leop0 rd ns argv = Inr (ret, Some prog, ls)) \<longleftrightarrow>
    (0 \<le> open_system (bus_lib V) \<and> 0 \<le> add_object_vtable (bus_lib V) \<and> 0 \<le> request_name (bus_lib V) \<longrightarrow>
     (\<exists>srv'. run_steps (link_notified (s3tp_lib V)) (filter for_link ns) srv = Inr srv'))"
proof -
  let ?a = "check_leop sh a"
  let ?p = "Program_new wd ?a False leop0"
  obtain r conn s where c: "dbus_connect (bus_lib V) (char_signed V) (VERSION V) (handler_on V) rd
      (dbus_part ?p) (satellite_part ?p) = Inr (r, conn, s)"
    and s: "reachable (spawner V) ?a False leop0 s"
    and r: "r = 0 \<longleftrightarrow> 0 \<le> open_system (bus_lib V) \<and> 0 \<le> add_object_vtable (bus_lib V) \<and> 0 \<le> request_name (bus_lib V)"
    using dbus_connect_survives [OF assms(1,2) reachable.start] by (auto simp: yields_iff) blast
  let ?q = "?p\<lparr>satellite_part := s, dbus_part := conn, s3tp_part := srv\<rparr>"
  have "(\<exists>ret prog ls. horst_run G sh V wd False leop0 rd ns argv = Inr (ret, Some prog, ls)) \<longleftrightarrow>
      (\<exists>ret prog. Satellite_run V rd ns ?p = Inr (ret, prog))"
    by (auto simp: horst_run_def assms(3) Let_def outcome_simps)
  also have "\<dots> \<longleftrightarrow> (r = 0 \<longrightarrow> (\<exists>prog. uv_loop V ns ?q = Inr prog))"
    using assms(4)
    by (auto simp: Satellite_run_def c [simplified Program_new_simps] Let_def outcome_simps(1))
  also have "\<dots> \<longleftrightarrow> (r = 0 \<longrightarrow> (\<exists>srv'. run_steps (link_notified (s3tp_lib V)) (filter for_link ns) srv = Inr srv'))"
    using uv_loop_returns [OF assms(1,2), of ?a leop0 ?q ns] s by simp
  finally show ?thesis
    by (simp add: r)
qed

text \<open>
  C5: only the remote shell can bring the program down. Assume that processes can be started,
  that the uninitialised flag \<open>enforced_safemode\<close> happens to be cleared, and that the stack
  holds three levels of \<open>on_event\<close>. Then the bus may deliver any messages and signals and the
  loop any exits and timeouts, in any order: \<open>run\<close> returns with a program object exactly when
  the bus cannot be connected or the handlers of the S3TP server, run alone on their own
  notifications, return.
\<close>

theorem program_falls_only_with_its_link:
  assumes "spawns_ok (spawner V)" and "3 \<le> stack_depth V" and "parse_args G argv = Parsed a"
    and "start (s3tp_lib V) (S3TPServer_new (port a) (socketpath a)) = Inr (b, srv)"
  shows "(\<exists>ret prog ls. horst_run G sh V wd False leop0 rd ns argv = Inr (ret, Some prog, ls)) \<longleftrightarrow>
    (0 \<le> open_system (bus_lib V) \<and> 0 \<le> add_object_vtable (bus_lib V) \<and> 0 \<le> request_name (bus_lib V) \<longrightarrow>
     (\<exists>srv'. run_steps (link_notified (s3tp_lib V)) (filter for_link ns) srv = Inr srv'))"
  using assms by (rule run_returns)

lemma program_falls_only_with_its_link_witness:
  "\<exists>ret prog ls. horst_run (\<lambda>_ _ _. [(109, [])]) (\<lambda>_. Some 0) platform0 0 False DONE
     \<lparr>bus_items = [], bus_events = 1, timeout_result = 0, timeout_usec = 0\<rparr>
     [BusReady \<lparr>bus_items = [Call Exec (Inr ''ls'') 0 0 0], bus_events = 1, timeout_result = 0,
        timeout_usec = 5000\<rparr>, WatchdogTick, ActionExited 0 1 9] [''-m''] = Inr (ret, Some prog, ls)"
proof -
  obtain b srv where "start link_env (S3TPServer_new (port (arguments_default\<lparr>startmanual := True\<rparr>)) (socketpath (arguments_default\<lparr>startmanual := True\<rparr>))) = Inr (b, srv)"
    using start_yields [of link_env "port (arguments_default\<lparr>startmanual := True\<rparr>)" "socketpath (arguments_default\<lparr>startmanual := True\<rparr>)"]
    by (auto simp: yields_iff)
  then show ?thesis
    using reliable_ok
    by (subst program_falls_only_with_its_link [where a = "arguments_default\<lparr>startmanual := True\<rparr>"])
      (simp_all add: parse_args_def)
qed

text \<open>
  C14: the whole program. Whatever the loop is notified of, whatever libuv and the libraries
  do and whatever the uninitialised fields hold: when \<open>run\<close> returns with a program object,
  the satellite is in a reachable state of the parsed arguments with the LEOP phase of the
  script, and the server is in a reachable state, or was not started because the bus could
  not be connected. So the satellite is not in nominal operation during an emergency, and
  the server polls its connection or waits to connect again.
\<close>

theorem program_keeps_invariants:
  assumes "horst_run G sh V wd enforced0 leop0 rd ns argv = Inr (ret, Some prog, ls)"
  shows "\<exists>a. parse_args G argv = Parsed a \<and>
    reachable (spawner V) (check_leop sh a) enforced0 leop0 (satellite_part prog) \<and>
    handled (current_state (satellite_part prog)) \<and>
    (server_reachable (s3tp_lib V) (port a) (socketpath a) (s3tp_part prog) \<and> server_wf (s3tp_part prog) \<and>
       ret = uv_run_result V \<or>
     s3tp_part prog = S3TPServer_new (port a) (socketpath a) \<and> ret = 1)"
proof -
  obtain a where a: "parse_args G argv = Parsed a"
    using assms by (auto simp: horst_run_def split: parse_result.splits)
  let ?p = "Program_new wd (check_leop sh a) enforced0 leop0"
  have "Satellite_run V rd ns ?p = Inr (ret, prog)"
    using assms by (auto simp: horst_run_def a Let_def outcome_simps)
  then obtain r conn s where conn: "dbus_connect (bus_lib V) (char_signed V) (VERSION V) (handler_on V)
        rd (dbus_part ?p) (satellite_part ?p) = Inr (r, conn, s)"
    and rest: "(let prog = ?p\<lparr>satellite_part := s, dbus_part := conn\<rparr>
          in if r \<noteq> 0 then Inr (1, prog)
             else and_then (start (s3tp_lib V) (s3tp_part prog))
                    (\<lambda>(_, srv). and_then (uv_loop V ns (prog\<lparr>s3tp_part := srv\<rparr>))
                       (\<lambda>prog. Inr (uv_run_result V, prog)))) = Inr (ret, prog)"
    unfolding Satellite_run_def and_then_eq_Inr by auto
  have s: "reachable (spawner V) (check_leop sh a) enforced0 leop0 s"
    using dbus_connect_steps [OF conn] by (simp add: Program_new_def reachable.start)
  have "reachable (spawner V) (check_leop sh a) enforced0 leop0 (satellite_part prog) \<and>
    (server_reachable (s3tp_lib V) (port a) (socketpath a) (s3tp_part prog) \<and> ret = uv_run_result V \<or>
     s3tp_part prog = S3TPServer_new (port a) (socketpath a) \<and> ret = 1)"
  proof (cases "r = 0")
    case True
    with rest obtain b srv where "start (s3tp_lib V) (S3TPServer_new (port a) (socketpath a)) = Inr (b, srv)"
      and loop: "uv_loop V ns (?p\<lparr>satellite_part := s, dbus_part := conn, s3tp_part := srv\<rparr>) = Inr prog"
      and "ret = uv_run_result V"
      by (auto simp: Let_def Program_new_def outcome_simps)
    with s show ?thesis
      using uv_loop_reachable [OF loop] by (simp add: server_reachable.started)
  next
    case False
    with rest s show ?thesis
      by (auto simp: Let_def Program_new_def)
  qed
  with a show ?thesis
    using reachable_handled_lemma server_reachable_wf_lemma by blast
qed

lemma program_keeps_invariants_witness:
  "\<exists>prog. horst_run (\<lambda>_ _ _. [(109, [])]) (\<lambda>_. Some 0) platform0 30000000 True DONE
       \<lparr>bus_items = [], bus_events = 1, timeout_result = 0, timeout_usec = 0\<rparr> [WatchdogTick] [''-m''] =
       Inr (0, Some prog, [''./scripts/check_leop.sh'', ''./scripts/startup.sh'']) \<and>
     handled (current_state (satellite_part prog)) \<and> server_wf (s3tp_part prog)"
proof -
  let ?rd = "\<lparr>bus_items = [], bus_events = 1, timeout_result = 0, timeout_usec = 0\<rparr> :: bus_round"
  let ?run = "horst_run (\<lambda>_ _ _. [(109, [])]) (\<lambda>_. Some 0) platform0 30000000 True DONE ?rd
    [WatchdogTick] [''-m'']"
  have "\<exists>prog. ?run = Inr (0, Some prog, [''./scripts/check_leop.sh'', ''./scripts/startup.sh''])"
    by (simp add: horst_run_def parse_args_def check_leop_def exec_def wexitstatus_def
        Satellite_run_def dbus_connect_def serve_bus_def notified_def control_notified_def
        control_enabled_def start_def reconnect_def S3TPServer_new_def update_events_def
        log_call_def Let_def link_env_def)
      (simp add: arguments_default_def watchdog_timer_def)
  then obtain prog where "?run = Inr (0, Some prog, [''./scripts/check_leop.sh'', ''./scripts/startup.sh''])"
    by blast
  with program_keeps_invariants [OF this] show ?thesis
    by simp blast
qed

end
