(* ===== verification/WholeSystem.thy ===== *)
theory WholeSystem
  imports RemoteSession Horst
begin

text \<open>
  A remote shell session in the running program: the client program at one end of the two
  streams, and at the other the whole of HORST, whose event loop serves the S3TP server, the
  satellite and the bus. The session of \<open>RemoteSession\<close> is an abstraction of it, and the
  simulation is proved here: each notification of the loop does to the server what the
  session says, and the satellite goes on as if there were no session.
\<close>

subsection \<open>The system\<close>

text \<open>
  What happens: at the client, at the poll handle of the server (with the callbacks that the
  library makes while it reads and while it writes), at the process of the command, and at
  the rest of the program.
\<close>

datatype system_event =
    AtClient session_event
  | LinkPoll u32 "session_event list" "session_event list"
  | CommandWrites bool string
  | CommandEnds int int
  | Elsewhere notification

fun is_client :: "session_event \<Rightarrow> bool" where
  "is_client (Types d) = True"
| "is_client Idle = True"
| "is_client (Downlink k) = True"
| "is_client _ = False"

fun is_callback :: "session_event \<Rightarrow> bool" where
  "is_callback (Uplink g k) = True"
| "is_callback Congests = True"
| "is_callback Drains = True"
| "is_callback _ = False"

text \<open>The events of the session that an event of the system stands for.\<close>

definition callbacks_in :: "bool \<Rightarrow> session_event list \<Rightarrow> session_event list" where
  "callbacks_in ready evs = (if ready then filter is_callback evs else [])"

fun session_part :: "s3tp_env \<Rightarrow> system_event \<Rightarrow> session_event list" where
  "session_part E (AtClient ev) = (if is_client ev then [ev] else [])"
| "session_part E (LinkPoll events ins outs) =
     callbacks_in (events AND UV_READABLE E \<noteq> 0) ins @ callbacks_in (events AND UV_WRITABLE E \<noteq> 0) outs @ [Polls]"
| "session_part E (CommandWrites is_out d) = (if d \<noteq> [] \<and> length d \<le> chunk_max then [Produces is_out d] else [])"
| "session_part E (CommandEnds status sig) = [Finishes status sig]"
| "session_part E (Elsewhere n) = []"

text \<open>The callbacks of the library, with the next bytes of the client's stream.\<close>

fun arriving :: "string \<Rightarrow> nat \<Rightarrow> session_event list \<Rightarrow> link_callback list" where
  "arriving up n [] = []"
| "arriving up n (Uplink g k # evs) =
     (let data = take k (drop n up) in DataReceived g data # arriving up (n + length data) evs)"
| "arriving up n (Congests # evs) = BufferFull # arriving up n evs"
| "arriving up n (Drains # evs) = BufferEmpty # arriving up n evs"
| "arriving up n (_ # evs) = arriving up n evs"

text \<open>The notification that the loop gets.\<close>

fun loop_part :: "s3tp_env \<Rightarrow> session \<Rightarrow> system_event \<Rightarrow> notification list" where
  "loop_part E s (AtClient ev) = []"
| "loop_part E s (LinkPoll events ins outs) =
     (let ins = callbacks_in (events AND UV_READABLE E \<noteq> 0) ins;
          outs = callbacks_in (events AND UV_WRITABLE E \<noteq> 0) outs;
          cbs = arriving (uplink s) (up_read s) (ins @ outs)
      in [LinkReady events (take (length ins) cbs) (drop (length ins) cbs)])"
| "loop_part E s (CommandWrites is_out d) =
     (if d \<noteq> [] \<and> length d \<le> chunk_max then [CommandOutput is_out (int (length d)) d] else [])"
| "loop_part E s (CommandEnds status sig) = [CommandExited status sig]"
| "loop_part E s (Elsewhere n) = (if for_link n then [] else [n])"

text \<open>The session and the program, side by side.\<close>

definition system_step :: "platform \<Rightarrow> client_env \<Rightarrow> string list \<Rightarrow> system_event \<Rightarrow> session \<times> program \<Rightarrow>
    (session \<times> program) outcome" where
  "system_step V C args ev =
     (\<lambda>(s, prog). and_then (uv_loop V (loop_part (s3tp_lib V) s ev) prog)
       (\<lambda>prog. and_then (session_run (s3tp_lib V) C args (session_part (s3tp_lib V) ev) s)
         (\<lambda>s. Inr (s, prog))))"

fun system_run :: "platform \<Rightarrow> client_env \<Rightarrow> string list \<Rightarrow> system_event list \<Rightarrow> session \<times> program \<Rightarrow>
    (session \<times> program) outcome" where
  "system_run V C args [] c = Inr c"
| "system_run V C args (ev # evs) c = and_then (system_step V C args ev c) (system_run V C args evs)"

definition elsewhere :: "system_event list \<Rightarrow> notification list" where
  "elsewhere evs = concat (map (\<lambda>ev. case ev of Elsewhere n \<Rightarrow> if for_link n then [] else [n] | _ \<Rightarrow> []) evs)"

subsection \<open>The simulation\<close>

text \<open>One callback of the library.\<close>

lemma callback_simulated:
  assumes "is_callback ev" and "session_step E C args ev s = Inr s'" and "channel (server s)"
  shows "\<exists>cb. link_callback E cb (server s) = Inr (server s') \<and>
    (\<forall>evs. arriving (uplink s) (up_read s) (ev # evs) = cb # arriving (uplink s') (up_read s') evs)"
  using assms
  by (cases ev) (auto simp: session_step_def Let_def outcome_simps link_callback_def uplink_def)

lemma callbacks_simulated:
  assumes "dependable E" and "can_spawn E" and "\<forall>h b. 0 < channel_send C h b"
    and "framable (snd (command_message args))"
    and "list_all is_callback evs" and "courteous (evs @ rest)" and "session_inv E sp base args ph s"
    and "ph = Over \<longrightarrow> \<not> list_ex is_uplink (evs @ rest)"
  obtains s' ph' cbs where "session_run E C args evs s = Inr s'" "session_inv E sp base args ph' s'"
    "ph' = Over \<longrightarrow> \<not> list_ex is_uplink rest" "courteous rest" "length cbs = length evs"
    "link_callbacks E cbs (server s) = Inr (server s')"
    "\<And>more. arriving (uplink s) (up_read s) (evs @ more) = cbs @ arriving (uplink s') (up_read s') more"
  using assms(5-)
proof (induction evs arbitrary: s ph thesis)
  case Nil
  then show ?case
    by (intro Nil.prems(1) [of s ph "[]"]) simp_all
next
  case (Cons ev evs)
  obtain s1 ph1 where s1: "session_step E C args ev s = Inr s1" "session_inv E sp base args ph1 s1"
    "ph1 = Over \<longrightarrow> \<not> list_ex is_uplink (evs @ rest)"
    using session_step_inv [OF assms(1-4), of ev "evs @ rest" sp base ph s] Cons.prems
    by (auto simp: yields_iff)
  have up: "channel (server s)"
    using Cons.prems(4) by (auto simp: session_inv_def serving_def)
  have ev: "is_callback ev" "list_all is_callback evs" and c: "courteous (evs @ rest)"
    using courteous_tl Cons.prems(2,3) by simp_all
  obtain cb where cb: "link_callback E cb (server s) = Inr (server s1)"
    "\<And>evs. arriving (uplink s) (up_read s) (ev # evs) = cb # arriving (uplink s1) (up_read s1) evs"
    using callback_simulated [OF ev(1) s1(1) up] by blast
  obtain s' ph' cbs where "session_run E C args evs s1 = Inr s'" "session_inv E sp base args ph' s'"
    "ph' = Over \<longrightarrow> \<not> list_ex is_uplink rest" "courteous rest" "length cbs = length evs"
    "link_callbacks E cbs (server s1) = Inr (server s')"
    "\<And>more. arriving (uplink s1) (up_read s1) (evs @ more) = cbs @ arriving (uplink s') (up_read s') more"
    using Cons.IH [OF _ ev(2) c s1(2,3)] by blast
  with s1(1) cb show ?case
    by (intro Cons.prems(1) [of s' ph' "cb # cbs"]) simp_all
qed

text \<open>What one event does: a relation of the session and of the program.\<close>

definition simulates :: "s3tp_env \<Rightarrow> client_env \<Rightarrow> string list \<Rightarrow> string list \<Rightarrow> string \<Rightarrow> session_event list \<Rightarrow>
    session_event list \<Rightarrow> notification list \<Rightarrow> session \<Rightarrow> bool" where
  "simulates E C args sp base evs rest ns s \<longleftrightarrow>
     (\<exists>s' ph'. session_run E C args evs s = Inr s' \<and> session_inv E sp base args ph' s' \<and>
        (ph' = Over \<longrightarrow> \<not> list_ex is_uplink rest) \<and> courteous rest \<and>
        run_steps (link_notified E) ns (server s) = Inr (server s'))"

lemma callbacks_in_ok [simp]: "list_all is_callback (callbacks_in ready evs)"
  by (simp add: callbacks_in_def list_all_iff)

lemma poll_simulated:
  assumes "dependable E" and "can_spawn E" and "\<forall>h b. 0 < channel_send C h b"
    and "framable (snd (command_message args))"
    and "courteous (session_part E (LinkPoll events ins outs) @ rest)" and "session_inv E sp base args ph s"
    and "ph = Over \<longrightarrow> \<not> list_ex is_uplink (session_part E (LinkPoll events ins outs) @ rest)"
    and "server_wf (server s)"
  shows "simulates E C args sp base (session_part E (LinkPoll events ins outs)) rest
    (loop_part E s (LinkPoll events ins outs)) s"
proof -
  define is' where "is' = callbacks_in (events AND UV_READABLE E \<noteq> 0) ins"
  define os where "os = callbacks_in (events AND UV_WRITABLE E \<noteq> 0) outs"
  have part: "session_part E (LinkPoll events ins outs) = is' @ os @ [Polls]"
    by (simp add: is'_def os_def)
  have ok: "list_all is_callback is'" "list_all is_callback os"
    and c: "courteous (is' @ os @ Polls # rest)" and o: "ph = Over \<longrightarrow> \<not> list_ex is_uplink (is' @ os @ Polls # rest)"
    using assms(5,7) unfolding part by (simp_all add: is'_def os_def)
  obtain s1 ph1 cbs1 where s1: "session_run E C args is' s = Inr s1" "session_inv E sp base args ph1 s1"
      "ph1 = Over \<longrightarrow> \<not> list_ex is_uplink (os @ Polls # rest)" "courteous (os @ Polls # rest)"
    and cbs1: "length cbs1 = length is'" "link_callbacks E cbs1 (server s) = Inr (server s1)"
      "\<And>more. arriving (uplink s) (up_read s) (is' @ more) = cbs1 @ arriving (uplink s1) (up_read s1) more"
    using callbacks_simulated [OF assms(1-4) ok(1) c assms(6) o] by blast
  obtain s2 ph2 cbs2 where s2: "session_run E C args os s1 = Inr s2" "session_inv E sp base args ph2 s2"
      "ph2 = Over \<longrightarrow> \<not> list_ex is_uplink (Polls # rest)" "courteous (Polls # rest)"
    and cbs2: "length cbs2 = length os" "link_callbacks E cbs2 (server s1) = Inr (server s2)"
      "\<And>more. arriving (uplink s1) (up_read s1) (os @ more) = cbs2 @ arriving (uplink s2) (up_read s2) more"
    using callbacks_simulated [OF assms(1-4) ok(2) s1(4,2,3)] by blast
  obtain s3 ph3 where s3: "session_step E C args Polls s2 = Inr s3" "session_inv E sp base args ph3 s3"
      "ph3 = Over \<longrightarrow> \<not> list_ex is_uplink rest"
    using session_step_inv [OF assms(1-4) s2(4,2,3)] by (auto simp: yields_iff)
  have up: "channel (server t)" if "session_inv E sp base args ph t" for t ph
    using that by (auto simp: session_inv_def serving_def)
  have "loop_part E s (LinkPoll events ins outs) = [LinkReady events cbs1 cbs2]"
    using cbs1(1,3) cbs2(3) [of "[]"] by (simp add: Let_def is'_def [symmetric] os_def [symmetric])
  moreover have "link_enabled (LinkReady events cbs1 cbs2) (server s)"
    using up [OF assms(6)] assms(8) by (simp add: link_enabled_def server_wf_def link_wf_def)
  moreover have "cbs1 = []" "s1 = s" if "events AND UV_READABLE E = 0"
    using that cbs1(1) s1(1) by (simp_all add: is'_def callbacks_in_def)
  moreover have "cbs2 = []" "s2 = s1" if "events AND UV_WRITABLE E = 0"
    using that cbs2(1) s2(1) by (simp_all add: os_def callbacks_in_def)
  ultimately have "run_steps (link_notified E) (loop_part E s (LinkPoll events ins outs)) (server s) = Inr (server s3)"
    using cbs1(2) cbs2(2) s3(1) up [OF assms(6)] up [OF s1(2)] up [OF s2(2)]
    by (auto simp: link_notified_def on_s3tp_event_def session_step_def outcome_simps)
  moreover have "session_run E C args (session_part E (LinkPoll events ins outs)) s = Inr s3"
    by (simp only: part session_run_append s1(1) s2(1) s3(1) and_then_Inr session_run.simps)
  ultimately show ?thesis
    using s3(2,3) s2(4) unfolding simulates_def by auto
qed

lemma single_simulated:
  assumes "dependable E" and "can_spawn E" and "\<forall>h b. 0 < channel_send C h b"
    and "framable (snd (command_message args))"
    and "courteous (ev # rest)" and "session_inv E sp base args ph s"
    and "ph = Over \<longrightarrow> \<not> list_ex is_uplink (ev # rest)"
    and "\<And>s'. session_step E C args ev s = Inr s' \<Longrightarrow> run_steps (link_notified E) ns (server s) = Inr (server s')"
  shows "simulates E C args sp base [ev] rest ns s"
proof -
  obtain s' ph' where "session_step E C args ev s = Inr s'" "session_inv E sp base args ph' s'"
    "ph' = Over \<longrightarrow> \<not> list_ex is_uplink rest"
    using session_step_inv [OF assms(1-7)] by (auto simp: yields_iff)
  with assms(8) courteous_tl [OF assms(5)] show ?thesis
    unfolding simulates_def by (intro exI [of _ s'] exI [of _ ph']) simp
qed

lemma nothing_simulated:
  "session_inv E sp base args ph s \<Longrightarrow> courteous rest \<Longrightarrow> (ph = Over \<longrightarrow> \<not> list_ex is_uplink rest) \<Longrightarrow>
    simulates E C args sp base [] rest [] s"
  by (auto simp: simulates_def)

lemma event_simulated:
  assumes "dependable E" and "can_spawn E" and "\<forall>h b. 0 < channel_send C h b"
    and "framable (snd (command_message args))"
    and "courteous (session_part E ev @ rest)" and "session_inv E sp base args ph s"
    and "ph = Over \<longrightarrow> \<not> list_ex is_uplink (session_part E ev @ rest)"
    and "server_wf (server s)" and "\<forall>n. ev \<noteq> Elsewhere n"
  shows "simulates E C args sp base (session_part E ev) rest (loop_part E s ev) s"
proof -
  note single = single_simulated [OF assms(1-4) _ assms(6)]
  have run: "running p" if "process (server s) = Some p" for p
    using assms(6) that by (cases ph) (auto simp: session_inv_def serving_def)
  show ?thesis
  proof (cases ev)
    case (AtClient cev)
    have "server s' = server s" if "session_step E C args cev s = Inr s'" "is_client cev" for s'
      using that by (cases cev) (auto simp: session_step_def Let_def split: if_splits)
    then show ?thesis
      using assms(5-7) single [of cev rest "[]"] nothing_simulated [OF assms(6), of rest]
      by (cases "is_client cev") (simp_all add: AtClient)
  next
    case (LinkPoll events ins outs)
    from poll_simulated [OF assms(1-4) _ assms(6) _ assms(8)] assms(5,7) show ?thesis
      unfolding LinkPoll by blast
  next
    case (CommandWrites is_out d)
    have "run_steps (link_notified E) [CommandOutput is_out (int (length d)) d] (server s) = Inr (server s')"
      if "session_step E C args (Produces is_out d) s = Inr s'" "d \<noteq> []" "length d \<le> chunk_max" for s'
      using that run
      by (auto simp: session_step_def link_notified_def link_enabled_def outcome_simps split: option.splits if_splits)
    then show ?thesis
      using assms(5-7) single [of "Produces is_out d" rest] nothing_simulated [OF assms(6), of rest]
      by (cases "d \<noteq> [] \<and> length d \<le> chunk_max") (auto simp: CommandWrites)
  next
    case (CommandEnds status sig)
    have "run_steps (link_notified E) [CommandExited status sig] (server s) = Inr (server s')"
      if "session_step E C args (Finishes status sig) s = Inr s'" for s'
      using that run
      by (auto simp: session_step_def link_notified_def link_enabled_def outcome_simps split: option.splits if_splits)
    then show ?thesis
      using assms(5,7) single [of "Finishes status sig" rest] by (simp add: CommandEnds)
  qed (use assms(9) in simp)
qed

subsection \<open>Runs of the system\<close>

lemma uv_loop_append: "uv_loop V (ns @ ns') prog = and_then (uv_loop V ns prog) (uv_loop V ns')"
proof (induction ns arbitrary: prog)
  case (Cons n ns)
  have "uv_loop V (ns @ ns') = (\<lambda>prog. and_then (uv_loop V ns prog) (uv_loop V ns'))"
    by (rule ext) (rule Cons.IH)
  then show ?case
    by (simp add: and_then_assoc)
qed simp

lemma uv_loop_link:
  assumes "list_all for_link ns" and "run_steps (link_notified (s3tp_lib V)) ns (s3tp_part prog) = Inr srv"
  shows "uv_loop V ns prog = Inr (prog\<lparr>s3tp_part := srv\<rparr>)"
  using assms
proof (induction ns arbitrary: prog)
  case (Cons n ns)
  then show ?case
    by (auto simp: notified_def outcome_simps)
qed simp

lemma loop_part_link: "\<forall>n. ev \<noteq> Elsewhere n \<Longrightarrow> list_all for_link (loop_part E s ev)"
  by (cases ev) (simp_all add: Let_def)

text \<open>
  The invariant of the whole system: the session describes the server of the program, and
  the satellite is in a reachable state.
\<close>

definition system_inv :: "platform \<Rightarrow> string list \<Rightarrow> string list \<Rightarrow> string \<Rightarrow> arguments \<Rightarrow> leop_seq \<Rightarrow>
    session_event list \<Rightarrow> session \<times> program \<Rightarrow> bool" where
  "system_inv V args sp base a leop0 rest c \<longleftrightarrow>
     (\<exists>ph. session_inv (s3tp_lib V) sp base args ph (fst c) \<and> (ph = Over \<longrightarrow> \<not> list_ex is_uplink rest)) \<and>
     courteous rest \<and> server (fst c) = s3tp_part (snd c) \<and> server_wf (s3tp_part (snd c)) \<and>
     reachable (spawner V) a False leop0 (satellite_part (snd c))"

lemma system_step_inv:
  assumes "dependable (s3tp_lib V)" and "can_spawn (s3tp_lib V)" and "\<forall>h b. 0 < channel_send C h b"
    and "framable (snd (command_message args))" and "spawns_ok (spawner V)" and "3 \<le> stack_depth V"
    and "system_inv V args sp base a leop0 (session_part (s3tp_lib V) ev @ rest) (s, prog)"
  shows "yields (\<lambda>c. system_inv V args sp base a leop0 rest c \<and>
      (\<exists>ns. uv_loop V ns prog = Inr (snd c) \<and> filter (\<lambda>n. \<not> for_link n) ns = elsewhere [ev]))
    (system_step V C args ev (s, prog))"
proof -
  let ?E = "s3tp_lib V"
  obtain ph where inv: "session_inv ?E sp base args ph s"
      "ph = Over \<longrightarrow> \<not> list_ex is_uplink (session_part ?E ev @ rest)"
    and c: "courteous (session_part ?E ev @ rest)" and srv: "server s = s3tp_part prog" "server_wf (server s)"
    and sat: "reachable (spawner V) a False leop0 (satellite_part prog)"
    using assms(7) by (auto simp: system_inv_def)
  show ?thesis
  proof (cases "\<exists>n. ev = Elsewhere n")
    case True
    then obtain n where n: "ev = Elsewhere n" ..
    have "yields (\<lambda>prog'. reachable (spawner V) a False leop0 (satellite_part prog') \<and> s3tp_part prog' = s3tp_part prog)
        (uv_loop V (loop_part ?E s ev) prog)"
      using control_survives [OF assms(5,6), of a leop0 "(satellite_part prog, dbus_part prog)" "watchdog prog" n] sat
      by (auto simp: n notified_def yields_iff)
    then obtain prog' where prog': "uv_loop V (loop_part ?E s ev) prog = Inr prog'"
      "reachable (spawner V) a False leop0 (satellite_part prog')" "s3tp_part prog' = s3tp_part prog"
      by (auto simp: yields_iff)
    moreover have "filter (\<lambda>n. \<not> for_link n) (loop_part ?E s ev) = elsewhere [ev]"
      by (simp add: n elsewhere_def)
    moreover have "system_step V C args ev (s, prog) = Inr (s, prog')"
      using prog'(1) by (simp add: system_step_def n)
    moreover have "system_inv V args sp base a leop0 rest (s, prog')"
      using inv c srv prog'(2,3) by (auto simp: system_inv_def n)
    ultimately show ?thesis
      by auto
  next
    case False
    then have "simulates ?E C args sp base (session_part ?E ev) rest (loop_part ?E s ev) s"
      using event_simulated [OF assms(1-4) c inv srv(2)] by blast
    then obtain s' ph' where s': "session_run ?E C args (session_part ?E ev) s = Inr s'"
      "session_inv ?E sp base args ph' s'" "ph' = Over \<longrightarrow> \<not> list_ex is_uplink rest" "courteous rest"
      "run_steps (link_notified ?E) (loop_part ?E s ev) (s3tp_part prog) = Inr (server s')"
      unfolding simulates_def srv(1) by blast
    have link: "list_all for_link (loop_part ?E s ev)"
      using loop_part_link False by blast
    then have loop: "uv_loop V (loop_part ?E s ev) prog = Inr (prog\<lparr>s3tp_part := server s'\<rparr>)"
      using s'(5) by (rule uv_loop_link)
    have "server_wf (server s')"
      by (rule session_run_server_wf [OF s'(1) srv(2)])
    moreover have "filter (\<lambda>n. \<not> for_link n) (loop_part ?E s ev) = elsewhere [ev]"
      using link False by (auto simp: elsewhere_def filter_empty_conv list_all_iff split: system_event.split)
    ultimately show ?thesis
      using s' sat loop by (auto simp: system_step_def system_inv_def)
  qed
qed

lemma elsewhere_Cons: "elsewhere (ev # evs) = elsewhere [ev] @ elsewhere evs"
  by (simp add: elsewhere_def)

lemma system_run_inv:
  assumes "dependable (s3tp_lib V)" and "can_spawn (s3tp_lib V)" and "\<forall>h b. 0 < channel_send C h b"
    and "framable (snd (command_message args))" and "spawns_ok (spawner V)" and "3 \<le> stack_depth V"
    and "system_inv V args sp base a leop0 (concat (map (session_part (s3tp_lib V)) evs)) c"
  shows "yields (\<lambda>c'. system_inv V args sp base a leop0 [] c' \<and>
      (\<exists>ns. uv_loop V ns (snd c) = Inr (snd c') \<and> filter (\<lambda>n. \<not> for_link n) ns = elsewhere evs))
    (system_run V C args evs c)"
  using assms(7)
proof (induction evs arbitrary: c)
  case Nil
  then show ?case
    by (auto simp: elsewhere_def intro: exI [of _ "[]"])
next
  case (Cons ev evs)
  obtain s prog where c: "c = (s, prog)" by force
  obtain c1 ns where c1: "system_step V C args ev c = Inr c1"
    "system_inv V args sp base a leop0 (concat (map (session_part (s3tp_lib V)) evs)) c1"
    "uv_loop V ns (snd c) = Inr (snd c1)" "filter (\<lambda>n. \<not> for_link n) ns = elsewhere [ev]"
    using system_step_inv [OF assms(1-6), of sp base a leop0 ev "concat (map (session_part (s3tp_lib V)) evs)" s prog]
      Cons.prems
    by (auto simp: c yields_iff)
  show ?case
    unfolding system_run.simps c1(1) and_then_Inr
  proof (rule yields_mono [OF Cons.IH [OF c1(2)]], elim conjE exE)
    fix c' ns'
    assume "system_inv V args sp base a leop0 [] c'" and "uv_loop V ns' (snd c1) = Inr (snd c')"
      and "filter (\<lambda>n. \<not> for_link n) ns' = elsewhere evs"
    then show "system_inv V args sp base a leop0 [] c' \<and>
      (\<exists>ns. uv_loop V ns (snd c) = Inr (snd c') \<and> filter (\<lambda>n. \<not> for_link n) ns = elsewhere (ev # evs))"
      using c1(3,4) elsewhere_Cons [of ev evs]
      by (intro conjI exI [of _ "ns @ ns'"]) (simp_all add: uv_loop_append)
  qed
qed

subsection \<open>Property\<close>

text \<open>
  C7: a remote shell session in the running program. Assume that processes can be started, that
  the flag that forces safemode started cleared, that the stack holds three levels, that the
  S3TP library never fails to send, that the exit callback of a remote command survives its own
  destruction, that the client connects with a command that fits in a frame, and that the events
  of the session are courteous: nothing arrives after the exit, no exit by SIGTERM, an exit code
  that fits in a frame, and no uninitialised type that reads \<open>ENDOFFILE\<close>. The loop of a program whose satellite
  is in a reachable state and whose server is idle and connected may be notified of anything
  from the bus, of exits of scripts and of the watchdog, in any order with the session.
  The program does not fall; it handles all of these notifications; the satellite stays in
  its reachable states; and the session is that of the client with the server alone: only
  the user's command is started, its input is what the user typed, and the client reports
  the start, the output in order and the exit, and ends with status 0 when it has.
\<close>

theorem session_in_the_program:
  assumes "dependable (s3tp_lib V)" and "can_spawn (s3tp_lib V)" and "\<forall>h b. 0 < channel_send C h b"
    and "bind_error C = 0" and "0 \<le> connect_result C" and "args \<noteq> []"
    and "framable (snd (command_message args))"
    and "spawns_ok (spawner V)" and "3 \<le> stack_depth V"
    and "reachable (spawner V) a False leop0 (satellite_part prog)"
    and "s3tp_part prog = srv" and "server_wf srv"
    and "channel srv" and "process srv = None" and "s3tp_server.buf srv = []" and "expected srv = 0" and "outbuf srv = []"
    and "courteous (concat (map (session_part (s3tp_lib V)) evs))"
  shows "yields (\<lambda>(s, prog').
      (\<exists>ns. uv_loop V ns prog = Inr prog' \<and> filter (\<lambda>n. \<not> for_link n) ns = elsewhere evs) \<and>
      reachable (spawner V) a False leop0 (satellite_part prog') \<and> handled (current_state (satellite_part prog')) \<and>
      server s = s3tp_part prog' \<and> streams_kept (spawned srv) args s)
    (system_run V C args evs (session_new (s3tp_lib V) C type0 args srv, prog))"
proof -
  let ?E = "s3tp_lib V"
  have "session_inv ?E (spawned srv) (sent ?E srv) args Fresh (session_new ?E C type0 args srv)"
    by (rule session_new_inv [OF assms(6,4,5,3,7,13-17)])
  then have "system_inv V args (spawned srv) (sent ?E srv) a leop0 (concat (map (session_part ?E) evs))
      (session_new ?E C type0 args srv, prog)"
    using assms(10-12,18) by (auto simp: system_inv_def session_new_def)
  from system_run_inv [OF assms(1-3,7-9) this] show ?thesis
  proof (rule yields_mono, clarify)
    fix s prog' ns
    assume sys: "system_inv V args (spawned srv) (sent ?E srv) a leop0 [] (s, prog')"
      and ns: "uv_loop V ns (snd (session_new ?E C type0 args srv, prog)) = Inr (snd (s, prog'))"
        "filter (\<lambda>n. \<not> for_link n) ns = elsewhere evs"
    obtain ph where inv: "session_inv ?E (spawned srv) (sent ?E srv) args ph s"
      and same: "server s = s3tp_part prog'"
      and sat: "reachable (spawner V) a False leop0 (satellite_part prog')"
      using sys by (auto simp: system_inv_def)
    from ns sat same reachable_handled_lemma [OF sat] session_inv_streams [OF inv]
    show "(\<exists>ns. uv_loop V ns prog = Inr prog' \<and> filter (\<lambda>n. \<not> for_link n) ns = elsewhere evs) \<and>
      reachable (spawner V) a False leop0 (satellite_part prog') \<and> handled (current_state (satellite_part prog')) \<and>
      server s = s3tp_part prog' \<and> streams_kept (spawned srv) args s"
      by auto
  qed
qed

text \<open>
  While \<^verbatim>\<open>cat\<close> is started, writes and exits, the watchdog ticks and a command arrives over
  the bus.
\<close>

definition busy_session :: "system_event list" where
  "busy_session =
     [AtClient (Types ''x''), LinkPoll 1 [Uplink (CHR 0x00) 7] [], Elsewhere WatchdogTick,
      LinkPoll 3 [Uplink (CHR 0x00) 9] [Drains], CommandWrites True ''hi'',
      Elsewhere (BusReady \<lparr>bus_items = [Call Exec (Inr ''ls'') 0 0 0], bus_events = 1, timeout_result = 0,
        timeout_usec = 5000\<rparr>),
      AtClient (Downlink 7), CommandEnds 0 0, AtClient (Downlink 50), AtClient Idle]"

lemma session_in_the_program_witness:
  "yields (\<lambda>(s, prog'). server s = s3tp_part prog' \<and> streams_kept [] [''cat''] s)
    (system_run platform0 client_env0 [''cat''] busy_session
      (session_new link_env client_env0 (CHR 0x00) [''cat''] server1,
       (Program_new 0 arguments_default False DONE)\<lparr>s3tp_part := server1\<rparr>))"
proof -
  have "courteous (concat (map (session_part link_env) busy_session))"
  proof -
    have "CHR 0x00 \<noteq> mt_byte ENDOFFILE"
      by code_simp
    moreover have "framable (exit_text 0)"
      by (simp add: framable_def exit_text_def show_int_def show_nat.simps)
    ultimately show ?thesis
      by (simp add: busy_session_def callbacks_in_def SIGTERM_def chunk_max_def)
  qed
  moreover have "server_wf server1" "spawned server1 = []"
    by (simp_all add: server1_def S3TPServer_new_def server_wf_def link_wf_def process_part_wf_def
        reading_wf_def spawned_def)
  moreover have "reachable reliable arguments_default False DONE (Satellite_new arguments_default False DONE)"
    by (rule reachable.start)
  ultimately show ?thesis
    using cat_session_ok reliable_ok
    by (intro yields_mono [OF session_in_the_program [of platform0 client_env0 "[''cat'']" arguments_default DONE
        _ server1 busy_session "CHR 0x00", unfolded platform0_simps]]) (simp_all add: case_prod_beta)
qed

end
