(* ===== verification/S3tpSafety.thy ===== *)
theory S3tpSafety
  imports S3tpServing
begin

text \<open>
  The handlers of the server return. As long as the S3TP library does not fail to send, every
  handler returns, whatever bytes arrive and whatever the processes do, until the connection
  is lost while a command runs.
\<close>

subsection \<open>Freed processes\<close>

text \<open>Only the timer frees a process that may run.\<close>

named_theorems orphans_kept \<open>operations that free no running process\<close>

lemma reconnect_orphans [orphans_kept]: "reconnect E srv = Inr (b, s) \<Longrightarrow> orphans s = orphans srv"
  by (auto simp: reconnect_def Let_def update_events_def server_simps split: if_splits option.splits)

lemma close_orphans [orphans_kept]: "close E srv = Inr s \<Longrightarrow> orphans s = orphans srv"
  by (auto simp: close_def outcome_simps dest: reconnect_orphans)

lemma update_events_orphans [orphans_kept]: "update_events E srv = Inr s \<Longrightarrow> orphans s = orphans srv"
  by (auto simp: update_events_def server_simps split: if_splits)

lemma disconnect_orphans [orphans_kept]: "disconnect srv = Inr s \<Longrightarrow> orphans s = orphans srv"
  by (auto simp: disconnect_def server_simps split: if_splits)

lemma send_buf_orphans [orphans_kept]: "send_buf E srv = Inr (b, s) \<Longrightarrow> orphans s = orphans srv"
  by (auto simp: send_buf_def Let_def outcome_simps server_simps stop_process_output_def
      split: if_splits dest!: orphans_kept)

lemma send_orphans [orphans_kept]: "send E msg n ty srv = Inr s \<Longrightarrow> orphans s = orphans srv"
  by (auto simp: send_def Let_def outcome_simps split: if_splits dest!: orphans_kept)

lemma exit_callback_orphans [orphans_kept]: "exit_callback E code srv = Inr s \<Longrightarrow> orphans s = orphans srv"
  by (auto simp: exit_callback_def Let_def outcome_simps split: if_splits dest!: orphans_kept)

lemma start_command_orphans [orphans_kept]: "start_command E c srv = Inr s \<Longrightarrow> orphans s = orphans srv"
  by (auto simp: start_command_def Let_def outcome_simps server_simps
      split: if_splits option.splits prod.splits dest!: orphans_kept)

lemma handle_frame_orphans [orphans_kept]: "handle_frame E ty srv = Inr s \<Longrightarrow> orphans s = orphans srv"
  by (auto simp: handle_frame_def erase_front_def outcome_simps split: if_splits option.splits
      dest!: orphans_kept)

lemma onDataReceived_orphans [orphans_kept]: "onDataReceived E g d srv = Inr s \<Longrightarrow> orphans s = orphans srv"
  by (auto simp: onDataReceived_def Let_def split: if_splits dest!: orphans_kept)

lemma process_exited_orphans [orphans_kept]: "process_exited E st sig srv = Inr s \<Longrightarrow> orphans s = orphans srv"
  by (auto simp: process_exited_def Let_def outcome_simps split: if_splits option.splits dest!: orphans_kept)

subsection \<open>Every handler returns\<close>

text \<open>Sending, while the library takes data or is full: the channel and the input side stay.\<close>

lemma send_buf_safe:
  assumes "lossless E" and "channel srv"
  shows "yields (\<lambda>(b, s). channel s \<and> buf s = buf srv \<and> expected s = expected srv \<and>
      (process s = process srv \<or> process s = map_option stop_output (process srv))) (send_buf E srv)"
proof -
  obtain b s where s: "send_buf E srv = Inr (b, s)" "channel s"
    "process s = process srv \<or> process s = map_option stop_output (process srv)"
    using send_buf_lossless [OF assms] by (auto simp: yields_iff)
  with send_buf_kept [OF assms(1) s(1)] show ?thesis
    by (simp add: kept_def)
qed

lemma send_safe:
  assumes "lossless E" and "channel srv"
  shows "yields (\<lambda>s. channel s \<and> buf s = buf srv \<and> expected s = expected srv \<and>
      (process s = process srv \<or> process s = map_option stop_output (process srv))) (send E msg n ty srv)"
proof (cases "n = 0 \<and> ty = NONE")
  case False
  let ?s = "srv\<lparr>outbuf := outbuf srv @ le32 n @ [mt_byte ty] @ take (unat n) msg\<rparr>"
  have "send E msg n ty srv = and_then (send_buf E ?s) (\<lambda>(_, srv). update_events E srv)"
    using assms(2) False by (auto simp: send_def Let_def)
  moreover have "channel ?s"
    using assms(2) by simp
  ultimately show ?thesis
    using send_buf_safe [OF assms(1), of ?s]
    by (auto simp: update_events_def server_simps elim!: yields_and_then)
qed (use assms(2) in \<open>simp add: send_def\<close>)

lemma exit_callback_safe:
  assumes "lossless E" and "channel srv" and "process srv = None \<or> keeps_closures E"
  shows "yields (\<lambda>s. channel s \<and> buf s = buf srv \<and> expected s = expected srv \<and> process s = None)
    (exit_callback E code srv)"
proof -
  have last: "yields (\<lambda>s. channel s \<and> buf s = buf srv \<and> expected s = expected srv \<and> process s = None)
      (if outbuf t \<noteq> [] then and_then (send_buf E t) (\<lambda>(_, srv). Inr srv) else disconnect t)"
    if "channel t" "buf t = buf srv" "expected t = expected srv" "process t = None" for t
    using send_buf_safe [OF assms(1) that(1)] that
    by (auto simp: disconnect_def server_simps elim!: yields_and_then)
  show ?thesis
    unfolding exit_callback_def Let_def
  proof (rule yields_and_then [OF send_safe [OF assms(1,2)]])
    fix s :: s3tp_server
    assume s: "channel s \<and> buf s = buf srv \<and> expected s = expected srv \<and>
      (process s = process srv \<or> process s = map_option stop_output (process srv))"
    then have kept: "\<not> (process s \<noteq> None \<and> \<not> closure_kept E (trace (s\<lparr>process := None\<rparr>)))"
      using assms(3) by (auto dest: keeps_closuresD)
    show "yields (\<lambda>s. channel s \<and> buf s = buf srv \<and> expected s = expected srv \<and> process s = None)
      (if process s \<noteq> None \<and> \<not> closure_kept E (trace (s\<lparr>process := None\<rparr>)) then Inl UseAfterFree
       else if outbuf (s\<lparr>process := None\<rparr>) \<noteq> []
       then and_then (send_buf E (s\<lparr>process := None\<rparr>)) (\<lambda>(_, srv). Inr srv)
       else disconnect (s\<lparr>process := None\<rparr>))"
      unfolding if_not_P [OF kept] using s by (intro last) simp_all
  qed
qed

lemma start_command_safe:
  assumes "lossless E" and "channel srv" and "process srv = None"
  shows "yields (\<lambda>s. buf s = buf srv \<and> expected s = expected srv) (start_command E c srv)"
proof -
  let ?r = "spawn_result E (trace srv) c"
  obtain p ex where p: "Process_new ?r c True = (p, ex)"
    by force
  have "yields (\<lambda>s. channel s \<and> buf s = buf srv \<and> expected s = expected srv)
      (if ex then exit_callback E (exit_code p) (log_call (Spawn c ?r) srv) else Inr (log_call (Spawn c ?r) srv))"
    using assms(2,3) yields_mono [OF exit_callback_safe [OF assms(1), of "log_call (Spawn c ?r) srv" "exit_code p"]]
    by (auto simp: server_simps)
  moreover have "yields (\<lambda>s. buf s = buf srv \<and> expected s = expected srv)
      (and_then (send E [] 0 STARTED (t\<lparr>process := Some p\<rparr>))
        (\<lambda>srv. case process srv of None \<Rightarrow> Inl NullDeref | Some p \<Rightarrow> Inr (srv\<lparr>process := Some (start_output p)\<rparr>)))"
    if "channel t \<and> buf t = buf srv \<and> expected t = expected srv" for t
    using send_safe [OF assms(1), of "t\<lparr>process := Some p\<rparr>" "[]" 0 STARTED] that
    by (auto elim!: yields_and_then)
  ultimately have "yields (\<lambda>s. buf s = buf srv \<and> expected s = expected srv)
      (and_then (if ex then exit_callback E (exit_code p) (log_call (Spawn c ?r) srv) else Inr (log_call (Spawn c ?r) srv))
        (\<lambda>t. and_then (send E [] 0 STARTED (t\<lparr>process := Some p\<rparr>))
          (\<lambda>srv. case process srv of None \<Rightarrow> Inl NullDeref | Some p \<Rightarrow> Inr (srv\<lparr>process := Some (start_output p)\<rparr>))))"
    by (rule yields_and_then)
  then show ?thesis
    by (simp add: start_command_def p Let_def)
qed

lemma handle_frame_safe:
  assumes "lossless E" and "channel srv" and "process_part_wf srv"
    and "headersize + unat (expected srv) \<le> length (buf srv)"
  shows "\<exists>s. handle_frame E ty srv = Inr s"
proof -
  let ?data = "take (unat (expected srv)) (drop headersize (buf srv))"
  have "yields (\<lambda>s. buf s = buf srv \<and> expected s = expected srv)
      (case process srv of
        Some p \<Rightarrow> if ty = mt_byte ENDOFFILE
          then and_then (close_input p) (\<lambda>p. Inr (srv\<lparr>process := Some p\<rparr>))
          else and_then (input ?data p) (\<lambda>p. Inr (srv\<lparr>process := Some p\<rparr>))
      | None \<Rightarrow> start_command E ?data srv)"
  proof (cases "process srv")
    case None
    with start_command_safe [OF assms(1,2) None] show ?thesis
      by simp
  next
    case (Some p)
    then have "has_in p \<noteq> None"
      using assms(3) by (simp add: process_part_wf_def)
    with Some show ?thesis
      by (auto simp: close_input_def input_def split: bool.split)
  qed
  then show ?thesis
    using assms(4) unfolding handle_frame_def
    by (auto simp: yields_iff erase_front_def)
qed

lemma data_safe:
  assumes "lossless E" and "channel srv" and "server_wf srv"
  shows "\<exists>s. onDataReceived E g d srv = Inr s"
proof -
  obtain x ty where h: "header g (buf srv @ d) srv = (x, ty)"
    by force
  have wf: "process_part_wf srv" "timer srv = None"
    using assms(2,3) by (auto simp: server_wf_def link_wf_def)
  have "\<exists>s. close E (srv\<lparr>buf := buf srv @ d, expected := 0\<rparr>) = Inr s"
    using close_yields [of "srv\<lparr>buf := buf srv @ d, expected := 0\<rparr>" E] wf
    by (auto simp: yields_iff process_part_wf_def)
  moreover have "\<exists>s. handle_frame E ty (srv\<lparr>buf := buf srv @ d, expected := x\<rparr>) = Inr s"
    if "headersize + unat x \<le> length (buf srv @ d)"
    using that assms(1,2) wf(1) by (intro handle_frame_safe) (simp_all add: process_part_wf_def)
  ultimately show ?thesis
    unfolding onDataReceived_cases [OF refl h] by (simp add: not_less)
qed

lemma exit_safe:
  assumes "dependable E" and "channel srv" and "server_wf srv" and "process srv = Some p"
  shows "\<exists>s. process_exited E status sig srv = Inr s"
proof -
  have "process_wf p"
    using assms(3,4) by (auto simp: server_wf_def link_wf_def process_part_wf_def)
  then obtain q run where q: "exit_cb status sig p = Inr (q, run)"
    using exit_cb_yields [of p status sig] by (auto simp: yields_iff)
  have "\<exists>s. exit_callback E (exit_code q) (srv\<lparr>process := Some q\<rparr>) = Inr s"
    using exit_callback_safe [OF dependableD(1) [OF assms(1)], of "srv\<lparr>process := Some q\<rparr>" "exit_code q"]
      dependableD(2) [OF assms(1)] assms(2)
    by (auto simp: yields_iff)
  then show ?thesis
    by (auto simp: process_exited_def assms(4) q Let_def)
qed

text \<open>
  A server is sound when its invariant holds and nothing that runs was freed, and its link is
  cut when a command is left without a channel.
\<close>

definition sound :: "s3tp_server \<Rightarrow> bool" where
  "sound srv \<longleftrightarrow> server_wf srv \<and> orphans srv = 0"

definition cut :: "s3tp_server \<Rightarrow> bool" where
  "cut srv \<longleftrightarrow> \<not> channel srv \<and> process srv \<noteq> None"

lemma sound_step: "sound srv \<Longrightarrow> server_step E srv s \<Longrightarrow> orphans s = orphans srv \<Longrightarrow> sound s"
  by (auto simp: sound_def intro: server_step_wf)

end
