(* ===== verification/LinkSafety.thy ===== *)
theory LinkSafety
  imports S3tpSafety Horst
begin

text \<open>
  What brings the program down. As long as the S3TP library does not fail to send, every
  notification of the loop is handled until the connection is lost while a command runs.
\<close>

subsection \<open>Notifications\<close>

lemma callback_safe:
  assumes "lossless E" and "sound srv"
  shows "yields sound (link_callback E cb srv)"
proof (cases "channel srv")
  case True
  have wf: "server_wf srv" "process_part_wf srv" "timer srv = None"
    using assms(2) True by (auto simp: sound_def server_wf_def link_wf_def)
  have step: "sound s" if "server_step E srv s" "orphans s = orphans srv" for s
    using sound_step [OF assms(2)] that .
  show ?thesis
  proof (cases cb)
    case (DataReceived g d)
    then show ?thesis
      using data_safe [OF assms(1) True wf(1), of g d] True
      by (auto simp: link_callback_def intro!: step server_step.data_received dest: onDataReceived_orphans)
  next
    case Disconnected
    have "\<exists>s. close E srv = Inr s"
      using close_yields [OF wf(2,3), of E] by (auto simp: yields_iff)
    then show ?thesis
      using Disconnected True
      by (auto simp: link_callback_def onDisconnected_close intro!: step dest: close_orphans
          intro: server_step.disconnected [unfolded onDisconnected_close])
  next
    case BufferFull
    have "orphans s = orphans srv" if "onBufferFull srv = Inr s" for s
      using that by (auto simp: onBufferFull_def stop_process_output_def)
    then show ?thesis
      using BufferFull True
      by (simp add: link_callback_def onBufferFull_def)
        (rule step [OF server_step.buffer_full], simp_all add: onBufferFull_def)
  next
    case BufferEmpty
    have "orphans s = orphans srv" if "onBufferEmpty E srv = Inr s" for s
      using that by (auto simp: onBufferEmpty_def outcome_simps dest: send_buf_orphans)
    moreover have "\<exists>s. onBufferEmpty E srv = Inr s"
      using send_buf_safe [OF assms(1), of "srv\<lparr>process := map_option start_output (process srv)\<rparr>"] True
      by (auto simp: onBufferEmpty_def yields_iff)
    ultimately show ?thesis
      using BufferEmpty True
      by (auto simp: link_callback_def intro!: step server_step.buffer_empty)
  qed
qed (use assms(2) in \<open>simp add: link_callback_def\<close>)

lemma callbacks_safe:
  assumes "lossless E" and "sound srv"
  shows "yields sound (link_callbacks E cbs srv)"
  using assms(2)
  by (induction cbs arbitrary: srv) (auto intro: yields_and_then [OF callback_safe [OF assms(1)]])

lemma poll_safe:
  assumes "sound srv" and "channel srv"
  shows "yields sound (update_events E srv)"
proof -
  have "\<exists>s. update_events E srv = Inr s"
    using assms(2) by (simp add: update_events_def)
  then show ?thesis
    using sound_step [OF assms(1) server_step.event_done [OF assms(2)]] update_events_orphans
    by (metis yields_Inr)
qed

lemma link_notified_safe:
  assumes "dependable E" and "sound srv" and "\<not> cut srv"
  shows "yields sound (link_notified E n srv)"
proof (cases "link_enabled n srv")
  case True
  note loss = dependableD(1) [OF assms(1)]
  have wf: "server_wf srv" "link_wf srv"
    using assms(2) by (auto simp: sound_def server_wf_def)
  have step: "sound s" if "server_step E srv s" "orphans s = orphans srv" for s
    using sound_step [OF assms(2)] that .
  show ?thesis
  proof (cases n)
    case (LinkReady events incoming outgoing)
    have half: "yields sound (if c then link_callbacks E cbs s else Inr s)" if "sound s" for c cbs s
      using that callbacks_safe [OF loss] by simp
    have "yields sound (if channel s then update_events E s else Inr s)" if "sound s" for s
      using that poll_safe by simp
    then have "yields sound (on_s3tp_event E (link_callbacks E incoming) (link_callbacks E outgoing) events srv)"
      unfolding on_s3tp_event_def
      by (intro yields_and_then [OF half [OF assms(2)]] yields_and_then [OF half]) auto
    with True show ?thesis
      by (simp add: link_notified_def LinkReady)
  next
    case LinkTimer
    have "process srv = None" "timer srv \<noteq> None"
      using assms(3) True wf(2) by (auto simp: cut_def LinkTimer link_enabled_def link_wf_def)
    then have "orphans s = orphans srv" if "on_timer E srv = Inr s" for s
      using that
      by (auto simp: on_timer_def outcome_simps free_process_None dest!: reconnect_orphans
          split: option.splits timer_cb.splits)
    moreover have "\<exists>s. on_timer E srv = Inr s"
      using on_timer_yields [OF wf(2), of E] by (auto simp: yields_iff)
    ultimately show ?thesis
      using True \<open>timer srv \<noteq> None\<close>
      by (auto simp: link_notified_def LinkTimer intro!: step server_step.timer_fired)
  next
    case (CommandOutput is_out nread base)
    then have p: "process srv \<noteq> None" and up: "channel srv"
      using True assms(3) by (auto simp: link_enabled_def cut_def split: option.splits)
    have "orphans s = orphans srv" if "read_callback E is_out nread base srv = Inr s" for s
      using that by (auto simp: read_callback_def dest: send_orphans split: if_splits)
    moreover have "\<exists>s. read_callback E is_out nread base srv = Inr s"
      using send_safe [OF loss up, of base "word_of_int nread" "if is_out then STDOUT else STDERR"]
      by (auto simp: read_callback_def yields_iff)
    ultimately show ?thesis
      using True p by (auto simp: link_notified_def CommandOutput intro!: step server_step.output_read)
  next
    case (CommandExited status sig)
    then obtain p where p: "process srv = Some p" "running p" and up: "channel srv"
      using True assms(3) by (auto simp: link_enabled_def cut_def split: option.splits)
    with exit_safe [OF assms(1) up wf(1) p(1), of status sig] show ?thesis
      using True
      by (auto simp: link_notified_def CommandExited intro!: step server_step.child_exited
          dest: process_exited_orphans)
  qed (use True assms(2) in \<open>simp_all add: link_enabled_def sound_def\<close>)
qed (use assms(2) in \<open>simp add: link_notified_def\<close>)

text \<open>So the first fault of a run comes after its link was cut.\<close>

lemma fault_after_cut:
  assumes "dependable E" and "sound srv" and "run_steps (link_notified E) ns srv = Inl e"
  shows "\<exists>k s. run_steps (link_notified E) (take k ns) srv = Inr s \<and> cut s"
  using assms(2,3)
proof (induction ns arbitrary: srv)
  case (Cons n ns)
  show ?case
  proof (cases "cut srv")
    case True
    then show ?thesis
      by (intro exI [of _ 0]) simp
  next
    case False
    obtain s where s: "link_notified E n srv = Inr s" "sound s"
      using link_notified_safe [OF assms(1) Cons.prems(1) False, of n] by (auto simp: yields_iff)
    with Cons.IH [OF s(2)] Cons.prems(2) obtain k t where
      "run_steps (link_notified E) (take k ns) s = Inr t" "cut t"
      by auto
    with s(1) show ?thesis
      by (intro exI [of _ "Suc k"]) simp
  qed
qed simp

lemma start_sound:
  assumes "start E (S3TPServer_new pt sp) = Inr (b, srv)"
  shows "sound srv"
proof -
  have "orphans (S3TPServer_new pt sp) = 0"
    by (simp add: S3TPServer_new_def)
  with assms reconnect_orphans [of E "S3TPServer_new pt sp" b srv] start_yields [of E pt sp] show ?thesis
    by (auto simp: sound_def start_def)
qed

subsection \<open>A cut link\<close>

definition killed :: "process \<Rightarrow> s3tp_server \<Rightarrow> s3tp_server" where
  "killed p srv =
     srv\<lparr>polling := False, channel := False, process := Some (kill p), timer := Some WaitForKill\<rparr>"

lemma killed_simps [simp]:
  "channel (killed p srv) = False" "polling (killed p srv) = False" "process (killed p srv) = Some (kill p)"
  "timer (killed p srv) = Some WaitForKill" "trace (killed p srv) = trace srv" "orphans (killed p srv) = orphans srv"
  by (simp_all add: killed_def)

lemma kill_running [simp]: "running (kill p) = running p"
  by (simp add: kill_def)

lemma link_lost:
  assumes "channel srv" and "polling srv" and "process srv = Some p" and "events AND UV_READABLE E \<noteq> 0"
  shows "link_notified E (LinkReady events [Disconnected] []) srv = Inr (killed p srv)"
  using assms(1,2,4)
  by (simp add: link_notified_def link_enabled_def on_s3tp_event_def link_callback_def killed_def
      onDisconnected_close close_with_process [OF assms(3)])

lemma wait_over:
  assumes "timer srv = Some WaitForKill" and "\<not> channel srv" and "\<not> polling srv" and "process srv = Some p"
  shows "yields (\<lambda>s. process s = None \<and> orphans s = orphans srv + (if running p then 1 else 0))
    (link_notified E LinkTimer srv)"
proof -
  obtain b s where s: "reconnect E (free_process (srv\<lparr>timer := None\<rparr>)) = Inr (b, s)"
    using reconnect_yields [of "free_process (srv\<lparr>timer := None\<rparr>)" E] assms(2,3)
    by (auto simp: yields_iff process_part_wf_def)
  moreover have "process s = None"
    using s assms(2) by (auto simp: reconnect_def Let_def update_events_def server_simps split: if_splits)
  ultimately show ?thesis
    using reconnect_orphans [OF s] assms(1,4)
    by (simp add: link_notified_def link_enabled_def on_timer_def free_process_def)
qed

lemma cut_falls:
  assumes "channel srv" and "polling srv" and "timer srv = None" and "process srv = Some p" and "running p"
    and "process_wf p" and "events AND UV_READABLE E \<noteq> 0" and "sig \<noteq> SIGTERM"
  shows "run_steps (link_notified E) [LinkReady events [Disconnected] [], CommandExited status sig] srv =
      Inl (if closure_kept E (trace srv) then NullDeref else UseAfterFree) \<and>
    run_steps (link_notified E) [LinkReady events [Disconnected] [], LinkTimer, FreedHandle] srv =
      Inl UseAfterFree"
proof -
  obtain q where "exit_cb status sig (kill p) = Inr (q, True)"
    using exit_cb_yields [of "kill p" status sig] assms(6,8) by (auto simp: yields_iff)
  then have "link_notified E (CommandExited status sig) (killed p srv) =
      Inl (if closure_kept E (trace srv) then NullDeref else UseAfterFree)"
    using assms(5)
    by (simp add: link_notified_def link_enabled_def process_exited_def exit_callback_no_channel)
  moreover have "and_then (link_notified E LinkTimer (killed p srv)) (link_notified E FreedHandle) =
      Inl UseAfterFree"
    using wait_over [of "killed p srv" "kill p" E] assms(5)
    by (auto simp: yields_iff link_notified_def [of E FreedHandle] link_enabled_def)
  ultimately show ?thesis
    by (auto simp: link_lost [OF assms(1,2,4,7)] and_then_assoc [symmetric] outcome_simps)
qed

lemma cut_survives:
  assumes "channel srv" and "polling srv" and "timer srv = None" and "process srv = Some p" and "running p"
    and "process_wf p" and "events AND UV_READABLE E \<noteq> 0"
  shows "yields (\<lambda>s. process s = None \<and> orphans s = orphans srv)
      (run_steps (link_notified E) [LinkReady events [Disconnected] [], CommandExited status SIGTERM, LinkTimer] srv)"
proof -
  obtain q where q: "exit_cb status SIGTERM (kill p) = Inr (q, False)" "\<not> running q"
    using exit_cb_yields [of "kill p" status SIGTERM] assms(6) by (auto simp: yields_iff)
  let ?s = "(killed p srv)\<lparr>process := Some q\<rparr>"
  have "link_notified E (CommandExited status SIGTERM) (killed p srv) = Inr ?s"
    using assms(5) q(1) by (simp add: link_notified_def link_enabled_def process_exited_def)
  then show ?thesis
    using wait_over [of ?s q E] q(2)
    by (auto simp: link_lost [OF assms(1,2,4,7)] yields_iff)
qed



text \<open>When the server falls, so does the program.\<close>

lemma link_fault_falls:
  assumes "spawns_ok (spawner V)" and "3 \<le> stack_depth V" and "parse_args G argv = Parsed a"
    and "start (s3tp_lib V) (S3TPServer_new (port a) (socketpath a)) = Inr (b, srv)"
    and "0 \<le> open_system (bus_lib V)" and "0 \<le> add_object_vtable (bus_lib V)" and "0 \<le> request_name (bus_lib V)"
    and "run_steps (link_notified (s3tp_lib V)) (filter for_link ns) srv = Inl e"
  shows "\<exists>e. horst_run G sh V wd False leop0 rd ns argv = Inl e"
proof (cases "horst_run G sh V wd False leop0 rd ns argv")
  case (Inr r)
  then obtain ret prog ls where "horst_run G sh V wd False leop0 rd ns argv = Inr (ret, Some prog, ls)"
    by (auto simp: horst_run_def assms(3) Let_def outcome_simps)
  with run_returns [OF assms(1-4), of sh wd leop0 rd ns] assms(5-8) show ?thesis
    by auto
qed simp

subsection \<open>Properties\<close>

text \<open>
  C6: what else brings the program down. Assume that processes can be started, that the S3TP
  library never fails to send, that the flag \<open>enforced_safemode\<close> of the start state happens to
  be cleared, that the stack holds three levels of \<open>on_event\<close>, and that the exit callback of a
  remote command survives its own destruction. Then the program falls only after its remote
  shell has been cut: when \<open>run\<close> ends in a fault, the server, run on the first notifications
  for it, reaches a state in which a command is left without a channel. Until then every
  notification is handled, whatever bytes the peer sends, whatever arrives on the bus, and
  whatever the processes do.
\<close>

theorem program_falls_only_after_a_cut:
  assumes "spawns_ok (spawner V)" and "3 \<le> stack_depth V" and "dependable (s3tp_lib V)"
    and "horst_run G sh V wd False leop0 rd ns argv = Inl e"
  shows "\<exists>a b srv k s. parse_args G argv = Parsed a \<and>
    start (s3tp_lib V) (S3TPServer_new (port a) (socketpath a)) = Inr (b, srv) \<and>
    run_steps (link_notified (s3tp_lib V)) (take k (filter for_link ns)) srv = Inr s \<and>
    process s \<noteq> None \<and> \<not> channel s"
proof -
  obtain a where a: "parse_args G argv = Parsed a"
    using assms(4) by (auto simp: horst_run_def split: parse_result.splits)
  obtain b srv where srv: "start (s3tp_lib V) (S3TPServer_new (port a) (socketpath a)) = Inr (b, srv)"
    using start_yields [of "s3tp_lib V" "port a" "socketpath a"] by (auto simp: yields_iff)
  from run_returns [OF assms(1,2) a srv, of sh wd leop0 rd ns] assms(4)
  obtain e' where "run_steps (link_notified (s3tp_lib V)) (filter for_link ns) srv = Inl e'"
    by (cases "run_steps (link_notified (s3tp_lib V)) (filter for_link ns) srv") auto
  from fault_after_cut [OF assms(3) start_sound [OF srv] this] a srv show ?thesis
    by (auto simp: cut_def)
qed

text \<open>A run in which the connection is lost while \<^verbatim>\<open>ls\<close> runs, and the command then exits.\<close>

definition ls_arrives :: notification where
  "ls_arrives = LinkReady 1 [DataReceived (CHR 0x00) (frame message_type.NONE ''ls'')] []"

definition cut_run :: "notification list" where
  "cut_run = [ls_arrives, WatchdogTick, LinkReady 1 [Disconnected] [], CommandExited 0 0]"

lemma ls_starts:
  assumes "start E (S3TPServer_new pt sp) = Inr (True, srv)" and "reliable_link E" and "can_spawn E"
    and "UV_READABLE E = 1"
  shows "\<exists>t p. link_notified E ls_arrives srv = Inr t \<and> channel t \<and> polling t \<and> timer t = None \<and>
    process t = Some p \<and> running p \<and> process_wf p"
proof -
  have new: "channel srv" "polling srv" "process srv = None" "s3tp_server.buf srv = []" "expected srv = 0" "outbuf srv = []"
    using assms(1)
    by (auto simp: start_def reconnect_def S3TPServer_new_def Let_def update_events_def log_call_def split: if_splits)
  let ?data = "frame message_type.NONE ''ls''"
  have one: "receive E [(CHR 0x00, ?data)] srv = onDataReceived E (CHR 0x00) ?data srv"
    by (cases "onDataReceived E (CHR 0x00) ?data srv") simp_all
  obtain s p where s: "onDataReceived E (CHR 0x00) ?data srv = Inr s" "channel s"
    "process s = Some p" "running p"
    using pieces_received [OF assms(2,3) new(1,3-6), of "''ls''" "[(CHR 0x00, ?data)]" message_type.NONE] one
    by (auto simp: framable_def yields_iff)
  obtain t where t: "update_events E s = Inr t" "channel t" "process t = Some p"
    using s(2,3) by (auto simp: update_events_def server_simps)
  have "server_wf srv"
    using start_yields [of E pt sp] assms(1) by simp
  then have "server_wf t"
    using new(1) s(1,2) t(1)
    by (blast intro: server_step_wf server_step.data_received server_step.event_done)
  then have "polling t" "timer t = None" "process_wf p"
    using t(2,3) by (auto simp: server_wf_def link_wf_def process_part_wf_def)
  moreover have "link_notified E ls_arrives srv = Inr t"
    using new(1,2) s(1,2) t(1)
    by (simp add: link_notified_def link_enabled_def on_s3tp_event_def link_callback_def ls_arrives_def assms(4))
  ultimately show ?thesis
    using t(2,3) s(4) by blast
qed

lemma link_env_starts:
  "\<exists>srv. start link_env (S3TPServer_new pt sp) = Inr (True, srv)"
  "\<exists>srv. start (link_env\<lparr>closure_kept := f\<rparr>) (S3TPServer_new pt sp) = Inr (True, srv)"
  by (simp_all add: start_def reconnect_def S3TPServer_new_def Let_def update_events_def log_call_def link_env_def)

lemma for_link_ls [simp]: "for_link ls_arrives"
  by (simp add: ls_arrives_def)

lemma cut_run_falls:
  assumes "start link_env (S3TPServer_new pt sp) = Inr (True, srv)"
  shows "run_steps (link_notified link_env) (filter for_link cut_run) srv = Inl NullDeref"
proof -
  have ready: "UV_READABLE link_env = 1" "closure_kept link_env h" for h
    by (simp_all add: link_env_def)
  obtain t p where t: "link_notified link_env ls_arrives srv = Inr t" "channel t" "polling t" "timer t = None"
    "process t = Some p" "running p" "process_wf p"
    using ls_starts [OF assms] ready(1) by auto
  then have "run_steps (link_notified link_env) [LinkReady 1 [Disconnected] [], CommandExited 0 0] t = Inl NullDeref"
    using cut_falls [of t p 1 link_env 0 0] by (simp add: ready SIGTERM_def)
  then show ?thesis
    by (simp add: cut_run_def t(1))
qed

lemma program_falls_only_after_a_cut_witness:
  "\<exists>a b srv k s. parse_args (\<lambda>_ _ _. [(109, [])]) [''-m''] = Parsed a \<and>
    start link_env (S3TPServer_new (port a) (socketpath a)) = Inr (b, srv) \<and>
    run_steps (link_notified link_env) (take k (filter for_link cut_run)) srv = Inr s \<and>
    process s \<noteq> None \<and> \<not> channel s"
proof -
  let ?rd = "\<lparr>bus_items = [], bus_events = 1, timeout_result = 0, timeout_usec = 0\<rparr> :: bus_round"
  have a: "parse_args (\<lambda>_ _ _. [(109, [])]) [''-m''] = Parsed (arguments_default\<lparr>startmanual := True\<rparr>)"
    by (simp add: parse_args_def)
  obtain srv where srv: "start link_env (S3TPServer_new (port (arguments_default\<lparr>startmanual := True\<rparr>))
      (socketpath (arguments_default\<lparr>startmanual := True\<rparr>))) = Inr (True, srv)"
    using link_env_starts(1) by blast
  obtain e where "horst_run (\<lambda>_ _ _. [(109, [])]) (\<lambda>_. Some 0) platform0 0 False DONE ?rd cut_run [''-m''] = Inl e"
    using link_fault_falls [OF _ _ a, of platform0 True srv cut_run NullDeref "\<lambda>_. Some 0" 0 DONE ?rd]
      reliable_ok srv cut_run_falls [OF srv]
    by auto
  moreover have "dependable link_env"
    by (simp add: dependable_def lossless_def)
  ultimately show ?thesis
    using program_falls_only_after_a_cut [of platform0] reliable_ok by auto
qed

text \<open>
  C32: what follows a cut. When the connection is lost while a command runs, the server
  survives only if the command obeys: if it dies of \<open>SIGTERM\<close> within the 100 milliseconds
  that the server waits, the process object is freed when nothing uses it any more. If the
  command exits by itself in that time, the exit callback dereferences the null channel, or
  has lost its captured pointer before; and if the command lives longer, its object is freed
  while it runs, and libuv calls back into it.
\<close>

theorem fate_after_a_cut:
  assumes "channel srv" and "polling srv" and "timer srv = None" and "process srv = Some p" and "running p"
    and "process_wf p" and "events AND UV_READABLE E \<noteq> 0" and "sig \<noteq> SIGTERM"
  shows "run_steps (link_notified E) [LinkReady events [Disconnected] [], CommandExited status sig] srv =
      Inl (if closure_kept E (trace srv) then NullDeref else UseAfterFree) \<and>
    run_steps (link_notified E) [LinkReady events [Disconnected] [], LinkTimer, FreedHandle] srv =
      Inl UseAfterFree \<and>
    yields (\<lambda>s. process s = None \<and> orphans s = orphans srv)
      (run_steps (link_notified E) [LinkReady events [Disconnected] [], CommandExited status SIGTERM, LinkTimer] srv)"
  using cut_falls [OF assms] cut_survives [OF assms(1-7)] by blast

lemma fate_after_a_cut_witness:
  "run_steps (link_notified link_env) [LinkReady 1 [Disconnected] [], LinkTimer, FreedHandle]
     (server1\<lparr>process := Some child1\<rparr>) = Inl UseAfterFree"
  using fate_after_a_cut [of "server1\<lparr>process := Some child1\<rparr>" child1 1 link_env 0]
  by (simp add: server1_def S3TPServer_new_def link_env_def SIGTERM_def)



end
