(* ===== verification/RemoteSessions.thy ===== *)
theory RemoteSessions
  imports RemoteSession
begin

text \<open>
  Users one after the other: each runs the client program, whose end hangs up, and the server
  makes a new connection for the next one.
\<close>

subsection \<open>Sessions in a row\<close>

text \<open>A user: the libraries of the client, an uninitialised byte, the command, and what happens.\<close>

record user =
  user_env :: client_env
  user_type :: char
  user_args :: "string list"
  user_events :: "session_event list"

definition user_ok :: "user \<Rightarrow> bool" where
  "user_ok u \<longleftrightarrow>
     (\<forall>h b. 0 < channel_send (user_env u) h b) \<and> bind_error (user_env u) = 0 \<and>
     0 \<le> connect_result (user_env u) \<and> user_args u \<noteq> [] \<and>
     framable (snd (command_message (user_args u))) \<and> courteous (user_events u)"

definition session_of :: "s3tp_env \<Rightarrow> user \<Rightarrow> s3tp_server \<Rightarrow> session outcome" where
  "session_of E u srv =
     session_run E (user_env u) (user_args u) (user_events u)
       (session_new E (user_env u) (user_type u) (user_args u) srv)"

text \<open>The end of the client program closes its channel, and the server's timer fires \<open>k\<close> times.\<close>

definition hang_up :: "s3tp_env \<Rightarrow> nat \<Rightarrow> s3tp_server \<Rightarrow> s3tp_server outcome" where
  "hang_up E k srv = and_then (onDisconnected E srv) (timeouts E k)"

text \<open>A session whose client does not end is the last one.\<close>

fun sessions :: "s3tp_env \<Rightarrow> nat \<Rightarrow> user list \<Rightarrow> s3tp_server \<Rightarrow> (session list \<times> s3tp_server) outcome" where
  "sessions E k [] srv = Inr ([], srv)"
| "sessions E k (u # us) srv =
     and_then (session_of E u srv)
       (\<lambda>s. if main_at (remote s) = Ended 0
            then and_then (hang_up E k (server s))
                   (\<lambda>srv. and_then (sessions E k us srv) (\<lambda>(ss, srv). Inr (s # ss, srv)))
            else Inr ([s], server s))"

definition user_command :: "user \<Rightarrow> string" where
  "user_command u = join_args (user_args u) @ [CHR 0x0A]"

subsection \<open>The server between two sessions\<close>

definition idle :: "s3tp_server \<Rightarrow> bool" where
  "idle srv \<longleftrightarrow>
     server_wf srv \<and> channel srv \<and> process srv = None \<and> buf srv = [] \<and> expected srv = 0 \<and> outbuf srv = []"

text \<open>Without a process the server is cleared by every attempt to connect.\<close>

definition cleared :: "string list \<Rightarrow> s3tp_server \<Rightarrow> bool" where
  "cleared sp srv \<longleftrightarrow>
     link_wf srv \<and> process srv = None \<and> buf srv = [] \<and> expected srv = 0 \<and> outbuf srv = [] \<and> spawned srv = sp"

lemma reconnect_clears:
  assumes "process srv = None" and "\<not> channel srv" and "\<not> polling srv" and "timer srv = None"
  shows "yields (\<lambda>(b, s). cleared (spawned srv) s) (reconnect E srv)"
proof -
  have "yields (\<lambda>(b, s). link_wf s \<and> keeps_input srv s) (reconnect E srv)"
    using assms by (intro reconnect_yields) (simp_all add: process_part_wf_def)
  moreover have "yields (\<lambda>(b, s). process s = None \<and> buf s = [] \<and> expected s = 0 \<and> outbuf s = [] \<and>
      spawned s = spawned srv) (reconnect E srv)"
    using assms by (simp add: reconnect_def Let_def update_events_def server_simps spawned_def)
  ultimately show ?thesis
    by (auto simp: yields_iff cleared_def)
qed

lemma timer_clears:
  assumes "cleared sp srv"
  shows "yields (cleared sp) (on_timer E srv)"
proof (cases "timer srv")
  case None
  with assms show ?thesis
    by (simp add: on_timer_def)
next
  case (Some cb)
  let ?s = "srv\<lparr>timer := None\<rparr>"
  have down: "process srv = None" "\<not> channel srv" "\<not> polling srv" "spawned srv = sp"
    using assms Some by (auto simp: cleared_def link_wf_def)
  have "yields (\<lambda>(b, s). cleared (spawned ?s) s) (reconnect E ?s)"
    using down by (intro reconnect_clears) simp_all
  moreover have "spawned ?s = sp"
    using down(4) by (simp add: spawned_def)
  ultimately show ?thesis
    using Some down(1)
    by (cases cb) (auto simp: on_timer_def free_process_None elim!: yields_and_then)
qed

lemma timeouts_clear: "cleared sp srv \<Longrightarrow> yields (cleared sp) (timeouts E k srv)"
  by (induction k arbitrary: srv) (auto intro: yields_and_then [OF timer_clears])

text \<open>So the server is idle again soon after the end of a session.\<close>

lemma hang_up_idle:
  assumes "server_wf srv" and "channel srv" and "process srv = None" and "link_up_from n E" and "n + 2 \<le> k"
  shows "yields (\<lambda>s. idle s \<and> spawned s = spawned srv) (hang_up E k srv)"
proof -
  let ?s = "srv\<lparr>polling := False, channel := False\<rparr>"
  have "timer srv = None"
    using assms(1,2) by (simp add: server_wf_def link_wf_def)
  then have "yields (\<lambda>(b, s). cleared (spawned ?s) s) (reconnect E ?s)"
    using assms(3) by (intro reconnect_clears) simp_all
  then have "yields (cleared (spawned srv)) (onDisconnected E srv)"
    by (auto simp: onDisconnected_def spawned_def elim!: yields_and_then)
  then obtain s where s: "onDisconnected E srv = Inr s" "cleared (spawned srv) s"
    by (auto simp: yields_iff)
  then have "connected s \<or> trying s"
    by (auto simp: cleared_def link_wf_def connected_def trying_def waiting_def)
  then have "yields connected (timeouts E k s)"
    using timeouts_connect [OF _ assms(4), of s k] assms(5) by (auto simp: timeouts_connected)
  with timeouts_clear [OF s(2), of E k] show ?thesis
    by (auto simp: hang_up_def s(1) yields_iff cleared_def idle_def connected_def server_wf_def reading_wf_def)
qed

subsection \<open>One user\<close>

lemma session_of_keeps:
  assumes "dependable E" and "can_spawn E" and "user_ok u" and "idle srv"
  shows "yields (\<lambda>s. server_wf (server s) \<and> channel (server s) \<and> streams_kept (spawned srv) (user_args u) s \<and>
      (main_at (remote s) = Ended 0 \<longrightarrow>
        process (server s) = None \<and> spawned (server s) = spawned srv @ [user_command u]))
    (session_of E u srv)"
proof -
  let ?new = "session_new E (user_env u) (user_type u) (user_args u) srv"
  have "yields (\<lambda>s. \<exists>ph. session_inv E (spawned srv) (sent E srv) (user_args u) ph s) (session_of E u srv)"
    using assms(3,4) unfolding session_of_def
    by (intro session_from_new [OF assms(1,2)]) (simp_all add: user_ok_def idle_def)
  then obtain s ph where s: "session_of E u srv = Inr s"
    "session_inv E (spawned srv) (sent E srv) (user_args u) ph s"
    by (auto simp: yields_iff)
  have "server_wf (server ?new)"
    using assms(4) by (simp add: session_new_def idle_def)
  then have "server_wf (server s)"
    using session_run_server_wf s(1) by (auto simp: session_of_def)
  moreover have sv: "channel (server s)" "spawned (server s) = spawned srv @ (if began ph then [user_command u] else [])"
    "in_phase (user_command u) ph (process (server s))"
    using s(2) by (auto simp: session_inv_def serving_def user_command_def command_message_def)
  moreover have "process (server s) = None \<and> spawned (server s) = spawned srv @ [user_command u]"
    if "main_at (remote s) = Ended 0"
  proof -
    have "ph = Over"
      using session_inv_reports(2) [OF s(2) that] s(2) by (auto simp: session_inv_def)
    with sv(2,3) show ?thesis
      by simp
  qed
  ultimately show ?thesis
    using session_inv_streams [OF s(2)] by (simp add: s(1))
qed

subsection \<open>Property\<close>

text \<open>
  C10: users come and go. Assume that the library never fails to send, that processes can be
  started and the exit callback survives its own destruction, and that the link can be bound and
  accepted from some attempt on. Any number of users run the client program one after the
  other, each as soon as the one before has ended, each connecting with a command that fits in a
  frame, and each with courteous events: nothing arrives after the exit, no exit by SIGTERM, an
  exit code that fits in a frame, and no uninitialised type that reads \<open>ENDOFFILE\<close>. Then nothing fails; every session keeps its streams, with the commands of the users before it, and only those,
  behind it; and when all clients have ended, the server has started the command of each user
  once, in order, and is idle and connected again.
\<close>

theorem users_come_and_go:
  assumes "dependable E" and "can_spawn E" and "link_up_from n E" and "n + 2 \<le> k"
    and "\<forall>u\<in>set us. user_ok u" and "idle srv"
  shows "yields (\<lambda>(ss, srv').
      length ss \<le> length us \<and>
      (\<forall>i<length ss. streams_kept (spawned srv @ map user_command (take i us)) (user_args (us ! i)) (ss ! i) \<and>
        (Suc i < length ss \<longrightarrow> main_at (remote (ss ! i)) = Ended 0)) \<and>
      (length ss = length us \<and> (\<forall>s\<in>set ss. main_at (remote s) = Ended 0) \<longrightarrow>
        idle srv' \<and> spawned srv' = spawned srv @ map user_command us) \<and>
      (length ss < length us \<longrightarrow> (\<exists>s\<in>set ss. main_at (remote s) \<noteq> Ended 0)))
    (sessions E k us srv)"
  using assms(5,6)
proof (induction us arbitrary: srv)
  case Nil
  then show ?case
    by simp
next
  case (Cons u us)
  obtain s where s: "session_of E u srv = Inr s" "server_wf (server s)" "channel (server s)"
    "streams_kept (spawned srv) (user_args u) s"
    "main_at (remote s) = Ended 0 \<longrightarrow> process (server s) = None \<and> spawned (server s) = spawned srv @ [user_command u]"
    using session_of_keeps [OF assms(1,2), of u srv] Cons.prems by (auto simp: yields_iff)
  show ?case
  proof (cases "main_at (remote s) = Ended 0")
    case True
    then obtain srv1 where srv1: "hang_up E k (server s) = Inr srv1" "idle srv1"
      "spawned srv1 = spawned srv @ [user_command u]"
      using hang_up_idle [OF s(2,3) _ assms(3,4)] s(5) by (auto simp: yields_iff)
    show ?thesis
      using Cons.IH [OF _ srv1(2)] Cons.prems(1) s(1,4) srv1(1,3) True
      by (auto simp: nth_Cons less_Suc_eq_0_disj split: nat.split elim!: yields_and_then)
  next
    case False
    with s(1,4) show ?thesis
      by simp
  qed
qed

text \<open>The session of \<^verbatim>\<open>cat\<close> to its end: the user waits for all output.\<close>

definition cat_user :: "nat \<Rightarrow> user" where
  "cat_user k = \<lparr>user_env = client_env0, user_type = CHR 0x00, user_args = [''cat''],
     user_events = cat_session @ [Drains, Downlink k, Idle]\<rparr>"

lemma cat_user_ok: "user_ok (cat_user k)"
  using cat_session_ok by (simp add: user_ok_def cat_user_def cat_session_def)

lemma server1_idle: "idle server1" "spawned server1 = []"
  by (simp_all add: idle_def server1_def S3TPServer_new_def server_wf_def link_wf_def process_part_wf_def
      reading_wf_def spawned_def)

lemma cat_user_ends: "\<exists>k. yields (\<lambda>s. main_at (remote s) = Ended 0) (session_of link_env (cat_user k) server1)"
proof -
  let ?new = "session_new link_env client_env0 (CHR 0x00) [''cat''] server1"
  obtain s where s: "session_run link_env client_env0 [''cat''] cat_session ?new = Inr s" "exit_status s = Some 0"
    using cat_session_runs by (auto simp: yields_iff)
  let ?k = "length (sent link_env (server s)) + length (outbuf (server s))"
  have "accepts_from 0 link_env"
    by (simp add: accepts_from_def)
  then have "yields (\<lambda>s'. main_at (remote s') = Ended 0 \<and>
        heard (callbacks (remote s')) = reports (produced s) (exit_status s))
      (session_run link_env client_env0 [''cat''] (replicate (0 + 1) Drains @ [Downlink ?k, Idle]) s)"
    by (intro session_ends [OF cat_session_ok(2) _ cat_session_ok(3,4) _ _ cat_session_ok(6) _ _ _ _ _
        cat_session_ok(1) s(1)]) (simp_all add: cat_session_ok s(2))
  then have "yields (\<lambda>s. main_at (remote s) = Ended 0) (session_of link_env (cat_user ?k) server1)"
    by (auto simp: session_of_def cat_user_def session_run_append s(1) yields_iff)
  then show ?thesis ..
qed

lemma users_come_and_go_witness:
  "\<exists>k. yields (\<lambda>(ss, srv). length ss = 1 \<and> idle srv \<and> spawned srv = [''cat'' @ [CHR 0x0A]])
    (sessions link_env 2 [cat_user k] server1)"
proof -
  obtain k s where s: "session_of link_env (cat_user k) server1 = Inr s" "main_at (remote s) = Ended 0"
    using cat_user_ends by (auto simp: yields_iff)
  have up: "link_up_from 0 link_env"
    by (simp add: link_up_from_def link_env_def)
  obtain srv where hang: "hang_up link_env 2 (server s) = Inr srv"
    using session_of_keeps [of link_env "cat_user k" server1] hang_up_idle [OF _ _ _ up, of "server s" 2]
      cat_session_ok(2) cat_user_ok server1_idle s
    by (auto simp: yields_iff)
  have "dependable link_env" "can_spawn link_env"
    using cat_session_ok(2) by simp_all
  then have "yields (\<lambda>(ss, srv'). length ss = 1 \<longrightarrow>
        (\<forall>s\<in>set ss. main_at (remote s) = Ended 0) \<longrightarrow>
        idle srv' \<and> spawned srv' = spawned server1 @ map user_command [cat_user k])
      (sessions link_env 2 [cat_user k] server1)"
    using server1_idle
    by (intro yields_mono [OF users_come_and_go [OF _ _ up]]) (auto simp: cat_user_ok)
  then have "yields (\<lambda>(ss, srv). length ss = 1 \<and> idle srv \<and> spawned srv = [''cat'' @ [CHR 0x0A]])
      (sessions link_env 2 [cat_user k] server1)"
    using s(2) by (simp add: s(1) hang server1_idle) (simp add: user_command_def cat_user_def)
  then show ?thesis ..
qed

end
