(* ===== verification/ErrorTrace.thy ===== *)
theory ErrorTrace
  imports Prelude "HOL-Library.Sublist"
begin

text \<open>
  Errors and their backtraces: \<^verbatim>\<open>src/error.h\<close>, \<^verbatim>\<open>src/error.cpp\<close> and the symbol names of
  \<^verbatim>\<open>src/util.cpp\<close>. Addresses are natural numbers; a call stack is the list of its return
  addresses, the innermost first. What the compiler's runtime and the loader know
  (\<open>__cxa_demangle\<close>, \<open>dladdr\<close>, how a pointer is printed) are arguments.
\<close>

subsection \<open>Symbol names\<close>

type_synonym addr = nat

record symbol_env =
  cxa_demangle :: "string \<Rightarrow> string option"
  dladdr :: "addr \<Rightarrow> (string option \<times> addr) option"
  show_addr :: "addr \<Rightarrow> string"
  show_hex :: "nat \<Rightarrow> string"

definition demangle :: "symbol_env \<Rightarrow> string \<Rightarrow> string" where
  "demangle D name = (case cxa_demangle D name of None \<Rightarrow> name | Some result \<Rightarrow> result)"

definition addr_to_string :: "symbol_env \<Rightarrow> addr \<Rightarrow> string" where
  "addr_to_string D a = ''['' @ show_addr D a @ '']''"

text \<open>\<open>dladdr\<close> yields the nearest symbol's name, if it has one, and address.\<close>

definition symbol_name :: "symbol_env \<Rightarrow> addr \<Rightarrow> bool \<Rightarrow> bool \<Rightarrow> string" where
  "symbol_name D a require_exact_addr no_pure_addrs =
     (case dladdr D a of
        None \<Rightarrow> if no_pure_addrs then [] else addr_to_string D a
      | Some (sname, saddr) \<Rightarrow>
          let symbol_offset = a - saddr
          in (case sname of
               None \<Rightarrow> if no_pure_addrs then [] else addr_to_string D a
             | Some name \<Rightarrow>
                 if symbol_offset \<noteq> 0 \<and> require_exact_addr
                 then (if no_pure_addrs then [] else addr_to_string D a)
                 else if symbol_offset = 0 then demangle D name
                 else demangle D name @ ''+0x'' @ show_hex D symbol_offset))"

subsection \<open>Backtraces\<close>

text \<open>
  A backtrace object is the list \<open>stack_addrs\<close> of its program counters.
  \<open>backtrace n\<close> fills a buffer of \<open>n\<close> entries from the call stack \<open>stk\<close> and returns how many
  it filled. \<open>analyze\<close> starts with 32 entries and doubles until the buffer is not full;
  after \<open>k\<close> rounds it has \<open>32 * 2 ^ k\<close> entries.
\<close>

record backtrace_symbol =
  functionname :: string
  pc :: addr

type_synonym stack_addrs = "addr list"

definition backtrace :: "addr list \<Rightarrow> nat \<Rightarrow> addr list" where
  "backtrace stk n = take n stk"

function analyze_loop :: "addr list \<Rightarrow> nat \<Rightarrow> addr list" where
  "analyze_loop stk k =
     (let size = 32 * 2 ^ k;
          elements = length (backtrace stk size)
      in if elements < size then take elements (backtrace stk size)
         else analyze_loop stk (Suc k))"
  by pat_completeness auto
termination
proof (relation "measure (\<lambda>(stk, k). Suc (length stk) - 32 * 2 ^ k)")
  show "((stk, Suc k), (stk, k)) \<in> measure (\<lambda>(stk, k). Suc (length stk) - 32 * 2 ^ k)"
    if "size = 32 * 2 ^ k" "elements = length (backtrace stk size)" "\<not> elements < size"
    for stk :: "addr list" and k size elements
  proof -
    have "32 * 2 ^ k \<le> length stk"
      using that by (simp add: backtrace_def)
    moreover have "(32 :: nat) * 2 ^ k < 32 * 2 ^ Suc k"
      by simp
    ultimately have "Suc (length stk) - 32 * 2 ^ Suc k < Suc (length stk) - 32 * 2 ^ k"
      by linarith
    then show ?thesis
      by simp
  qed
qed simp

declare analyze_loop.simps [simp del]

definition analyze :: "addr list \<Rightarrow> stack_addrs \<Rightarrow> stack_addrs" where
  "analyze stk stack_addrs = stack_addrs @ analyze_loop stk 0"

text \<open>The loop of \<open>trim_to_current_stack_frame\<close>, on the two stacks.\<close>

function trim_loop :: "addr list \<Rightarrow> addr list \<Rightarrow> addr list" where
  "trim_loop this current =
     (if current \<noteq> [] \<and> this \<noteq> []
      then if last this \<noteq> last current then this
           else trim_loop (butlast this) (butlast current)
      else this)"
  by pat_completeness auto
termination
  by (relation "measure (\<lambda>(this, current). length this)") auto

declare trim_loop.simps [simp del]

definition trim_to_current_stack_frame :: "addr list \<Rightarrow> stack_addrs \<Rightarrow> stack_addrs" where
  "trim_to_current_stack_frame stk this = trim_loop this (analyze stk [])"

text \<open>\<open>get_symbols\<close> calls back with the name and address of every entry.\<close>

definition get_symbols :: "symbol_env \<Rightarrow> bool \<Rightarrow> stack_addrs \<Rightarrow> backtrace_symbol list" where
  "get_symbols D reversed stack_addrs =
     map (\<lambda>a. \<lparr>functionname = symbol_name D a False True, pc = a\<rparr>)
       (if reversed then rev stack_addrs else stack_addrs)"

subsection \<open>Errors\<close>

text \<open>
  An exception object: an \<open>Error\<close> with its type, message, backtrace and cause, another
  \<open>std::exception\<close>, or an object of any other type.
\<close>

datatype exn =
    HorstError string string "stack_addrs option" "exn option"
  | StdException string string
  | OtherException

fun trim_backtrace :: "addr list \<Rightarrow> exn \<Rightarrow> exn" where
  "trim_backtrace stk (HorstError ty msg bt c) =
     HorstError ty msg (map_option (trim_to_current_stack_frame stk) bt) c"
| "trim_backtrace stk e = e"

fun set_cause :: "exn option \<Rightarrow> exn \<Rightarrow> exn" where
  "set_cause c (HorstError ty msg bt c0) = HorstError ty msg bt c"
| "set_cause c e = e"

text \<open>
  \<open>store_cause\<close>; \<open>current\<close> is \<open>std::current_exception\<close>. A cause that is an \<open>Error\<close> is
  trimmed in place.
\<close>

definition store_cause :: "addr list \<Rightarrow> exn option \<Rightarrow> exn \<Rightarrow> exn" where
  "store_cause stk current e =
     (case current of
        None \<Rightarrow> e
      | Some cause \<Rightarrow>
          (case cause of
             HorstError ty msg bt c \<Rightarrow> set_cause (Some (trim_backtrace stk cause)) e
           | _ \<Rightarrow> set_cause (Some cause) e))"

text \<open>
  The constructor. \<open>stk\<close> is the stack in the call of \<open>analyze\<close> for the new error, and
  \<open>trim_stk\<close> the one in the call for the cut of the cause, which is made some frames
  deeper: both have the frames of the constructor's callers in common.
\<close>

definition Error_new ::
    "string \<Rightarrow> string \<Rightarrow> bool \<Rightarrow> bool \<Rightarrow> addr list \<Rightarrow> addr list \<Rightarrow> exn option \<Rightarrow> exn" where
  "Error_new ty msg generate_backtrace store stk trim_stk current =
     (let e = HorstError ty msg None None;
          e = (if generate_backtrace then HorstError ty msg (Some (analyze stk [])) None else e)
      in if store then store_cause trim_stk current e else e)"

definition InternalError_new :: "string \<Rightarrow> addr list \<Rightarrow> addr list \<Rightarrow> exn option \<Rightarrow> exn" where
  "InternalError_new msg stk trim_stk current =
     Error_new ''horst::InternalError'' msg True True stk trim_stk current"

text \<open>
  The accessors. \<open>rethrow_cause\<close> throws the cause, if there is one: the result is what it
  throws.
\<close>

fun get_msg :: "exn \<Rightarrow> string" where
  "get_msg (HorstError ty msg bt c) = msg"
| "get_msg (StdException ty what) = what"
| "get_msg OtherException = []"

fun type_name :: "exn \<Rightarrow> string" where
  "type_name (HorstError ty msg bt c) = ty"
| "type_name (StdException ty what) = ty"
| "type_name OtherException = []"

fun get_backtrace :: "exn \<Rightarrow> addr list option" where
  "get_backtrace (HorstError ty msg bt c) = bt"
| "get_backtrace _ = None"

fun rethrow_cause :: "exn \<Rightarrow> exn option" where
  "rethrow_cause (HorstError ty msg bt c) = c"
| "rethrow_cause _ = None"

subsection \<open>Printing\<close>

definition endl :: string where
  "endl = [CHR 0x0A]"

definition print_symbol :: "symbol_env \<Rightarrow> backtrace_symbol \<Rightarrow> string" where
  "print_symbol D symbol =
     '' -> '' @ (if functionname symbol = [] then ''?'' else functionname symbol)
       @ (if pc symbol \<noteq> 0 then '' ['' @ show_addr D (pc symbol) @ '']'' else [])"

definition print_backtrace :: "symbol_env \<Rightarrow> addr list \<Rightarrow> string" where
  "print_backtrace D bt =
     ''Traceback (most recent call last):'' @ endl
       @ concat (map (\<lambda>symbol. print_symbol D symbol @ endl) (get_symbols D True bt))"

text \<open>
  \<open>operator <<\<close> on errors. A cause that is no \<open>std::exception\<close> is thrown through it
  (\<open>None\<close>). \<open>std::exception\<close> is printed by its type and \<open>what()\<close>.
\<close>

definition print_own :: "symbol_env \<Rightarrow> string \<Rightarrow> string \<Rightarrow> addr list option \<Rightarrow> string" where
  "print_own D ty msg bt =
     (case bt of Some b \<Rightarrow> print_backtrace D b | None \<Rightarrow> ''origin:'' @ endl)
       @ ty @ '':'' @ endl @ msg"

definition cause_banner :: string where
  "cause_banner =
     endl @ ''The above exception was the direct cause of the following exception:'' @ endl @ endl"

fun print_error :: "symbol_env \<Rightarrow> exn \<Rightarrow> string option" where
  "print_error D (HorstError ty msg bt None) = Some (print_own D ty msg bt)"
| "print_error D (HorstError ty msg bt (Some c)) =
     (case print_error D c of
        None \<Rightarrow> None
      | Some text_c \<Rightarrow> Some (text_c @ endl @ cause_banner @ print_own D ty msg bt))"
| "print_error D (StdException ty what) = Some (ty @ '': '' @ what)"
| "print_error D OtherException = None"

subsection \<open>Lemmas\<close>

lemma analyze_loop_complete: "analyze_loop stk k = stk"
proof (induction stk k rule: analyze_loop.induct)
  case (1 stk k)
  then show ?case
    by (subst analyze_loop.simps) (auto simp: Let_def backtrace_def)
qed

lemma analyze_complete [simp]: "analyze stk [] = stk"
  by (simp add: analyze_def analyze_loop_complete)

lemma trim_loop_spec:
  "rev (trim_loop this current) =
     drop (length (longest_common_prefix (rev this) (rev current))) (rev this)"
proof (induction this current rule: trim_loop.induct)
  case (1 this current)
  show ?case
  proof (cases "current \<noteq> [] \<and> this \<noteq> []")
    case True
    then obtain ts t cs c where s: "this = ts @ [t]" "current = cs @ [c]"
      by (metis rev_exhaust)
    with 1 show ?thesis
      by (subst trim_loop.simps) (auto simp: s)
  next
    case False
    then show ?thesis
      by (subst trim_loop.simps) auto
  qed
qed

text \<open>
  The chain of causes of an error, the outermost error first, and the text of an error as
  a list of the parts that \<open>operator <<\<close> writes, the innermost cause first.
\<close>

fun cause_chain :: "exn \<Rightarrow> exn list" where
  "cause_chain (HorstError ty msg bt c) =
     HorstError ty msg bt c # (case c of None \<Rightarrow> [] | Some e \<Rightarrow> cause_chain e)"
| "cause_chain e = [e]"

definition own_text :: "symbol_env \<Rightarrow> exn \<Rightarrow> string" where
  "own_text D e =
     (case e of
        HorstError ty msg bt c \<Rightarrow> print_own D ty msg bt
      | StdException ty what \<Rightarrow> ty @ '': '' @ what
      | OtherException \<Rightarrow> [])"

lemma own_text_simps [simp]:
  "own_text D (HorstError ty msg bt c) = print_own D ty msg bt"
  "own_text D (StdException ty what) = ty @ '': '' @ what"
  "own_text D OtherException = []"
  by (simp_all add: own_text_def)

lemma cause_chain_hd: "\<exists>x xs. cause_chain e = x # xs \<and> own_text D x = own_text D e"
  by (cases e) simp_all

text \<open>
  An error is printed with all its causes, the first cause first, each followed by the
  banner, and the error's own text at the end; and nothing is printed exactly when the chain
  ends in an object that is no exception of the standard library, which escapes.
\<close>

lemma print_error_chain:
  "print_error D e =
     (if OtherException \<in> set (cause_chain e) then None
      else Some (concat (map (\<lambda>c. own_text D c @ endl @ cause_banner) (rev (tl (cause_chain e)))) @ own_text D e))"
proof (induction D e rule: print_error.induct)
  case (2 D ty msg bt c)
  obtain x xs where "cause_chain c = x # xs" "own_text D x = own_text D c"
    using cause_chain_hd [of c D] by blast
  with 2 show ?case
    by auto
qed simp_all

subsection \<open>Properties\<close>

text \<open>
  C39: a stored cause. An error created while another one is being handled keeps that error
  as its cause, with its backtrace cut at the outermost frames that it has in common with
  the stack at the time of the cut; its own backtrace is the whole stack at the time of its
  construction, however deep.
\<close>

theorem cause_is_trimmed:
  "\<exists>bt'. Error_new ty msg True True stk trim_stk (Some (HorstError ty' msg' (Some bt) c)) =
      HorstError ty msg (Some stk) (Some (HorstError ty' msg' (Some bt') c)) \<and>
    (\<exists>common. bt = bt' @ common \<and> rev common = longest_common_prefix (rev bt) (rev trim_stk))"
proof -
  let ?bt = "trim_loop bt trim_stk"
  have "rev bt = longest_common_prefix (rev bt) (rev trim_stk) @ rev ?bt"
    by (metis trim_loop_spec append_take_drop_id longest_common_prefix_prefix1 append_eq_conv_conj prefixE)
  then have "bt = ?bt @ rev (longest_common_prefix (rev bt) (rev trim_stk))"
    by (metis rev_append rev_rev_ident)
  then have "\<exists>common. bt = ?bt @ common \<and> rev common = longest_common_prefix (rev bt) (rev trim_stk)"
    by (intro exI [of _ "rev (longest_common_prefix (rev bt) (rev trim_stk))"]) simp
  then show ?thesis
    by (simp add: Error_new_def store_cause_def trim_to_current_stack_frame_def)
qed

end
