(* ===== verification/Spec2Isabelle.thy ===== *)
theory Spec2Isabelle
  imports WholeSystem LinkSafety RemoteSessions ErrorTrace
begin

text \<open>
  HORST is the master program of a CubeSat's on-board computer. It holds a model of the
  satellite (operation modes, LEOP phase, battery level, temperature, payload daemon and
  attitude control) and reacts to events by starting scripts. Operators and the other
  daemons of the satellite reach it over D-Bus; a ground station gets a remote shell
  over S3TP. One libuv loop drives everything from one thread. This development is a
  shallow embedding of the C++ sources under \<^verbatim>\<open>src/\<close>, with the client of the remote shell,
  \<^verbatim>\<open>test/s3tp/remoteexec.cpp\<close>. This theory imports all the others and holds the
  properties that span components; the properties of one front end stand in its theory.

  \<^bold>\<open>How the parts interact.\<close> A D-Bus method or signal, a control message or an
  exiting script becomes an event object. \<open>Satellite::on_event\<close> lets the event update the
  current state (a fact) or a copy of it, the target state (a request). \<open>State::transform_to\<close>
  compares both and returns actions. Each action is entered into the action table and
  performed: it emits further events, which call \<open>on_event\<close> again from inside the loop,
  and starts a process. When the process exits, a callback reports to the request behind the
  action, emits the events of the action's completion, and removes the action.

  \<^bold>\<open>Theories, in the order of their imports.\<close>

    \<^item> \<open>Prelude\<close>: widths of the machine integers, the type \<open>outcome\<close> (\<open>Inl\<close> a fault such as
      \<open>UseAfterFree\<close>, \<open>NullDeref\<close> or \<open>StackOverflow\<close>, \<open>Inr\<close> the new state), its bind \<open>and_then\<close>, the triple \<open>yields\<close>, the order \<open>refines\<close>, and the
      little-endian image of a 32-bit integer.
    \<^item> \<open>Util\<close>, \<open>Texts\<close>: \<^verbatim>\<open>util.h\<close> and \<^verbatim>\<open>util.cpp\<close>, the hash that the text parsers compare, the
      names that are read back and the colliding texts; \<open>std::stoi\<close> and printing of numbers.
    \<^item> \<open>State\<close>, \<open>Event\<close>, \<open>Action\<close>, \<open>CtlMessage\<close>, \<open>Process\<close>: \<^verbatim>\<open>state/\<close>, \<^verbatim>\<open>event/\<close>, \<^verbatim>\<open>action/\<close> and
      \<^verbatim>\<open>process.cpp\<close>. A class is a record or a constructor of a datatype, a virtual method a
      function by cases on the class.
    \<^item> \<open>Table\<close>: \<open>transform_to\<close> statement by statement, a list of guarded rules, and the proof that
      the code fires exactly these; the logic table of \<^verbatim>\<open>doc/system_design.md\<close>, row by row, and the
      three rows where the code departs from it.
    \<^item> \<open>Satellite\<close>: the action table, \<open>perform\<close> and the callbacks of every action, \<open>on_event\<close>
      and process exits, with the interface \<open>action_table\<close> and its interpretation.
    \<^item> \<open>Reentrancy\<close>: invariants of the re-entrant handler. The locales \<open>satellite_invariant\<close>,
      \<open>event_sink\<close> and \<open>sink_client\<close> state what an action expects of the handler it calls back;
      they are interpreted on \<open>on_event\<close> at every depth. The handler is monotone in its depth.
    \<^item> \<open>Settle\<close>: the abstract specification. \<open>expected_state\<close> and \<open>expected_scripts\<close> say without
      recursion what an event does; the locales \<open>quiet_handler\<close> (facts in non-nominal operation)
      and \<open>settling_handler\<close> (all facts) climb from depth 1 to depth 3, where every event has
      its specified effect.
    \<^item> \<open>Mission\<close>: runs of the satellite as the relations \<open>step\<close> and \<open>reachable\<close>, the safety
      invariant for every behaviour of libuv (locale \<open>guarding_handler\<close>), the specification of
      completed actions, the attitude control cycle with its repeated triggers, and the two ways to exhaust the stack.
    \<^item> \<open>S3tpProto\<close>, \<open>S3tp\<close>, \<open>S3tpSession\<close>: frames, the server of \<^verbatim>\<open>server/s3tp.cpp\<close> callback by
      callback with its reachable states and their invariant, and what a client observes.
    \<^item> \<open>S3tpFlow\<close>: the server over time. Input that arrives in pieces for a running process,
      output while the library is full (the relation of what was sent, what is held and what
      waits in the pipes), the exit under back-pressure, and the reconnection.
    \<^item> \<open>S3tpDelivery\<close>: the liveness of the output: a measure that every round of the loop reduces.
    \<^item> \<open>Remoteexec\<close>: the frames and the callbacks of the client. The locale \<open>stream_reader\<close>
      states what makes a reader of a byte stream independent of how the stream is split; the
      client is an instance.
    \<^item> \<open>RemoteexecMain\<close>: \<open>main\<close> of the client with its two threads, the wait for the connection
      and the \<open>select\<close> loop, as a fold over the list of what happens.
    \<^item> \<open>S3tpServing\<close>: the server as the peer of a client. The phases of a session, what each
      operation does to the stream sent and the stream received, and input that comes late.
    \<^item> \<open>S3tpSafety\<close>: the server against any peer: as long as it holds no process without a
      connection, no operation faults, whatever bytes arrive.
    \<^item> \<open>RemoteSession\<close>: the client program and the server joined by two streams of bytes,
      of which any part may arrive at any time. One invariant relates the phase of the server,
      what was typed, written and reported, and the bytes on their way.
    \<^item> \<open>RemoteSessions\<close>: users one after the other, each with a run of the client program, and
      the reconnection of the server between them.
    \<^item> \<open>Dbus\<close>: \<^verbatim>\<open>server/dbus.cpp\<close>, its methods with their signatures and the arguments their replies
      pass, the beacon and its reader in the robot tests, signals, the
      loop over the bus, and the connection from \<open>connect\<close> to \<open>close\<close>.
    \<^item> \<open>Loop\<close>: the program object of \<^verbatim>\<open>satellite.h\<close> with its three parts and its watchdog
      timer, and the libuv loop as a list of notifications. The locale \<open>two_parts\<close> says that
      steps for one part leave the other alone; the program is its instance.
    \<^item> \<open>Horst\<close>: \<^verbatim>\<open>horst.cpp\<close>, the command line, the LEOP check, and \<open>run\<close> from the arguments to
      the exit status.
    \<^item> \<open>LinkSafety\<close>: the server in the loop, what becomes of a command when its connection
      is lost, the exit callback that frees itself, and the one other way in which the program falls.
    \<^item> \<open>WholeSystem\<close>: a session with the whole program at the server's end. The session of
      \<open>RemoteSession\<close> simulates what the notifications of the loop do to the server.
    \<^item> \<open>ErrorTrace\<close>: \<^verbatim>\<open>error.cpp\<close>, the backtraces of nested errors and their text.

  \<^bold>\<open>What the groups of lemmas show.\<close> C1 to C4, C13 and C16 are the core: the
  table, the refinement of the re-entrant handler to a flat specification, the safety and
  termination of every reachable state. C5 to C7, C14, C15 and C27 are the whole program at run time:
  \<open>run\<close> returns whenever the S3TP server does, which faults when a command exits whose exit
  callback does not survive its own destruction (C15), and otherwise only after its connection was
  lost under a running command; its parts stay in the reachable states of
  their own, their runs do not depend on how the loop interleaves them
  (\<open>front_ends_do_not_interfere\<close>), and a remote shell session runs among them as it would alone. C8 to C12, C17 to C20 and
  C32 to C37 are the remote shell: the session of the client program with the server over two byte
  streams, whatever the order of what happens, its end, and the sessions of user after user;
  the round trip from the typed command and its
  input to the reported exit code for every split of the streams, the server's
  invariant, back-pressure, the delivery of the output, the reconnection, and the sessions that go
  wrong. C24 to C26 are the D-Bus front end, C38 is the start. C21 to C23 are consequences for the
  mission; C28 to C31 the faults of the satellite; C39 and C40 errors and texts. Sharper
  statements about single operations are lemmas beside them, such as \<open>command_completes\<close>,
  \<open>late_exit_uses_freed_process\<close>, \<open>failed_start_reported_backwards\<close>, \<open>measuring_guarded\<close>,
  \<open>silent_outside_nominal\<close>, \<open>battery_option\<close>, \<open>exit_is_the_last_word\<close>, \<open>client_hears_every_message\<close> and \<open>client_ends_with_the_command\<close>.

  \<^bold>\<open>Bounds.\<close> Two recursions of the code have no structural measure. \<open>on_event\<close> recurses through the
  actions; its model takes the depth of the stack as an argument, and depth 0 is
  \<open>StackOverflow\<close>. Depth 3 is enough for every event in every reachable state when
  processes can be spawned (C4), and a deeper stack changes nothing (\<open>on_event_mono\<close>); C28 and
  C29 show the states in which no depth is enough. \<open>analyze_loop\<close> grows its buffer until the
  trace fits, and \<open>ErrorTrace\<close> proves that it ends. All other loops are structural or have a
  measure; the event loop and \<open>main\<close> of the client are folds over what happens to them, so every
  finite history is covered. Machine integers keep their width where it matters: 8-bit modes,
  hashes of 32 bits, 16-bit battery levels, 32-bit lengths. The identifiers of actions are natural
  numbers for an unsigned 64-bit counter.

  \<^bold>\<open>Standing assumptions.\<close> The code is not right without them, and each is the hypothesis of the
  theorems that need it. \<open>spawns_ok\<close>: \<open>uv_spawn\<close> succeeds (C29 and C30 show what happens
  otherwise). \<open>calm\<close>, or the start value \<open>False\<close>: the uninitialised \<open>enforced_safemode\<close> is cleared
  (C28). \<open>dependable\<close>: the S3TP library never fails to send (C33), and the exit callback of a remote
  command survives its own destruction: \<^verbatim>\<open>s3tp.cpp:212\<close> frees the object that holds the callback,
  and the callback goes on to use the pointer it captured there. Whether the pointer is still
  there is the field \<open>closure_kept\<close> of the environment; if it is not, the callback is the fault
  \<open>UseAfterFree\<close> (C15). \<open>courteous\<close>: in a session nothing arrives at the server after the exit
  (C34), the command does not die of SIGTERM (C31), and the uninitialised type of a split frame is
  not \<open>ENDOFFILE\<close> (C35).

  \<^bold>\<open>Parameters.\<close> Code outside \<^verbatim>\<open>src/\<close> is an argument: libuv (results of \<open>uv_spawn\<close>, and exits, reads
  and timers as steps), the S3TP library (records \<open>s3tp_env\<close> and \<open>client_env\<close>), sd-bus
  (\<open>bus_env\<close>, \<open>bus_round\<close>), \<open>select\<close> and \<open>read\<close>, \<open>getopt_long\<close>, \<open>popen\<close> and the
  shell, the loader and the demangler. A notification reaches a handler only while the handle
  behind it is active (\<open>link_enabled\<close>, \<open>control_enabled\<close>), as libuv documents. The values of
  fields that a constructor leaves uninitialised are arguments, too, so a theorem about all of
  them covers every garbage. The signedness of \<open>char\<close> is the argument \<open>sc\<close>; \<open>size_t\<close> has 64 bits.

  \<^bold>\<open>Not modelled.\<close> Logging; failing memory allocations; accessors that only return a field, and
  the destructors; the declarations of the event and action classes, whose fields are the
  arguments of the constructors of \<open>event\<close> and \<open>action_kind\<close>; the tests but for the client
  and the reader of the beacon.
  Both threads of the client run one after the other, not in parallel, and a callback of the S3TP
  library runs to its end before the next one. In a session the exit of a process and the
  closing of its handle are one step, the connection stays up, and the user does not end the
  input: the sessions with a lost connection or an ended input are those of C32 and C36. A process object
  that is freed while its process runs is a count, \<open>orphans\<close>, in the server: whatever
  libuv does with its handle (\<open>FreedHandle\<close>) is the fault \<open>UseAfterFree\<close>. The message
  parser \<open>ctl_parse\<close> is modelled but has no properties of its own: nothing in the sources calls it.
\<close>

section \<open>Properties of the satellite\<close>

text \<open>
  C1: events. Assume that processes can be started, that the flag that forces safemode is
  cleared and no command is queued, that the identifiers in use are below the next one, and
  that the stack holds three levels. Then handling an event, with all the events nested in it,
  ends, has exactly the state and the script starts of the flat specification, sends no reply,
  and leaves the actions that are under way alone.
\<close>

theorem event_refines_specification:
  assumes "spawns_ok U" and "calm (current_state s)" and "ids_fresh s" and "3 \<le> d"
  shows "yields (\<lambda>s'. current_state s' = expected_state ev (current_state s) \<and>
      spawn_log s' = spawn_log s @
        map (\<lambda>l. (l, 0)) (expected_scripts (scripts s) ev (current_state s)) \<and>
      replies s' = replies s \<and> (\<forall>i\<in>dom (actions s). actions s' i = actions s i))
    (on_event U d ev s)"
  using on_event_expected [OF assms] by (rule yields_mono) (simp add: progress_def)

definition satellite0 :: satellite where
  "satellite0 = Satellite_new arguments_default False DONE"

lemma satellite0_state [simp]:
  "current_state satellite0 =
     \<lparr>battery_treshold = 30, computer = \<lparr>shell_commands = []\<rparr>, safemode = 0,
      enforced_safemode = False, manualmode = False, maneuvermode = False, leop = DONE,
      eps = \<lparr>battery_level = 30\<rparr>, thm_c = \<lparr>all_temp = WARN\<rparr>, pl = \<lparr>daemon = OFF\<rparr>,
      adcs = \<lparr>pointing = adcs_mode.NONE, requested = adcs_mode.NONE\<rparr>\<rparr>"
  "scripts satellite0 = ''./scripts/''" "spawn_log satellite0 = []" "replies satellite0 = []"
  "actions satellite0 = Map.empty" "next_id satellite0 = 0"
  by (simp_all add: satellite0_def Satellite_new_def State_new_def arguments_default_def
      Computer_new_def EPS_new_def THM_new_def Payload_new_def ADCS_new_def)

lemma satellite0_calm [simp]: "calm (current_state satellite0)" "ids_fresh satellite0"
  by (simp_all add: calm_def ids_fresh_def)

lemma event_refines_specification_witness:
  "yields (\<lambda>s'. safemode (current_state s') = 1 \<and>
      map fst (spawn_log s') = [''./scripts/enter_safemode.sh'', ''./scripts/trigger_detumbling.sh''])
    (on_event reliable 3 (THMSignal ALARM) satellite0)"
  by (rule yields_mono [OF event_refines_specification [OF reliable_ok satellite0_calm order_refl]])
    (simp add: settle_def nominal_def emergency_reason_def auto_scripts_def auto_rules_def
      adcs_idle_def measuring_allowed_def deployed_le_iff)

text \<open>
  C2: whatever libuv does and whatever the uninitialised fields hold, in no reachable state
  is the satellite in nominal operation with a temperature alarm or a battery level
  below the threshold.
\<close>

theorem emergency_always_answered:
  assumes "reachable U args enforced0 leop0 s"
    and "safemode (current_state s) = 0" and "\<not> manualmode (current_state s)"
  shows "all_temp (thm_c (current_state s)) \<noteq> ALARM \<and>
    battery_treshold (current_state s) \<le> battery_level (eps (current_state s))"
  using reachable_handled_lemma [OF assms(1)] assms(2,3)
  by (auto simp: handled_def nominal_def emergency_def)

lemma emergency_always_answered_witness:
  "battery_treshold (current_state (Satellite_new arguments_default True UNDEPLOYED)) \<le>
     battery_level (eps (current_state (Satellite_new arguments_default True UNDEPLOYED)))"
  by (rule emergency_always_answered [OF reachable.start [of reliable], THEN conjunct2])
    (simp_all add: Satellite_new_def State_new_def arguments_default_def)

text \<open>
  C3: the transition table. The code of \<open>State::transform_to\<close>, statement by statement,
  fires exactly the guarded rules of \<open>rules\<close>, in their order, after the queued commands; the
  one field it writes is the LEOP phase. The rows of the documented logic table are the only
  ones whose actions it fires, and it fires a row's action exactly when the documented
  cells hold, with three departures: \<open>Battery low\<close> yields to \<open>Temperature ALARM\<close>, \<open>Safemode on\<close>
  is repeated for an enforced request, and \<open>Leop done\<close> waits for the request \<open>DONE\<close>.
\<close>

theorem transition_table:
  "transform_to this target =
     (leop_shift this target,
      Computer_transform_to (computer this) (computer target) @ fired this target) \<and>
   set (fired this target) \<subseteq> range row_action \<and>
   (row_action row \<in> set (fired this target) \<longleftrightarrow>
      (let s = leop_shift this target; as_documented = documented row s target in
       case row of
         BatteryLow \<Rightarrow> as_documented \<and> \<not> documented TemperatureAlarm s target
       | SafemodeOn \<Rightarrow> as_documented \<or> safemode target \<noteq> 0 \<and> enforced_safemode target
       | LeopDone \<Rightarrow> as_documented \<and> leop target = DONE
       | _ \<Rightarrow> as_documented))"
proof -
  have "set (fired this target) \<subseteq> range row_action"
    unfolding fired_rows by blast
  moreover have "row_fires row s target \<longleftrightarrow>
      (case row of
         BatteryLow \<Rightarrow> documented row s target \<and> \<not> documented TemperatureAlarm s target
       | SafemodeOn \<Rightarrow> documented row s target \<or> safemode target \<noteq> 0 \<and> enforced_safemode target
       | LeopDone \<Rightarrow> documented row s target \<and> leop target = DONE
       | _ \<Rightarrow> documented row s target)" for s
    by (cases row) simp_all
  ultimately show ?thesis
    by (simp only: Let_def row_fires_iff transform_to_split fired_split [symmetric] simp_thms)
qed

text \<open>
  C16: the invariant of the satellite. If the flag that forces safemode starts cleared, then
  in every reachable state it is clear, no command is queued, safemode holds one of the
  four reasons, every identifier in use is smaller than the next one, and every child
  process is well-formed.
\<close>

theorem reachable_wellformed:
  assumes "reachable U args False leop0 s"
  shows "\<not> enforced_safemode (current_state s) \<and>
    shell_commands (computer (current_state s)) = [] \<and>
    safemode (current_state s) \<le> 3 \<and>
    (\<forall>i a. actions s i = Some a \<longrightarrow> i < next_id s \<and>
       (\<forall>p. child a = Some p \<longrightarrow> process_wf p))"
proof -
  have "satellite_wf s"
    using wf.reachable_inv [OF assms Satellite_new_wf] .
  then show ?thesis
    by (auto simp: satellite_wf_def state_wf_def ids_fresh_def action_ok_def ran_def
        split: option.splits)
qed

lemma reachable_wellformed_witness:
  "\<exists>s. on_event reliable 3 (SafeModeReq True) satellite0 = Inr s \<and> safemode (current_state s) \<le> 3"
proof -
  obtain s where s: "on_event reliable 3 (SafeModeReq True) satellite0 = Inr s"
    using on_event_expected [OF reliable_ok satellite0_calm order_refl, of "SafeModeReq True"]
    by (auto simp: yields_iff)
  then have "step reliable satellite0 s"
    by (intro step.receive) simp_all
  then have "reachable reliable arguments_default False DONE s"
    unfolding satellite0_def by (rule reachable.advance [OF reachable.start])
  from reachable_wellformed [OF this] s show ?thesis
    by blast
qed

text \<open>
  C4: the satellite always answers. Assume that processes can be started and that the flag that
  forces safemode started cleared. Then in every reachable state every external event is
  handled, with three levels of the stack or more, and leads to a reachable state again.
\<close>

theorem every_event_is_answered:
  assumes "spawns_ok U" and "reachable U args False leop0 s" and "external ev"
  shows "\<exists>s'. (\<forall>d\<ge>3. on_event U d ev s = Inr s') \<and> reachable U args False leop0 s'"
proof -
  have wf: "satellite_wf s"
    using wf.reachable_inv [OF assms(2) Satellite_new_wf] .
  then have "calm (current_state s)" and "ids_fresh s"
    by (simp_all add: satellite_wf_def state_wf_def calm_def)
  then obtain s' where s': "on_event U 3 ev s = Inr s'"
    using on_event_expected [OF assms(1) _ _ order_refl] by (auto simp: yields_iff)
  then have "reachable U args False leop0 s'"
    using assms(2,3) by (blast intro: reachable.advance step.receive)
  with s' show ?thesis
    using on_event_mono by blast
qed

lemma every_event_is_answered_witness:
  "\<exists>s'. (\<forall>d\<ge>3. on_event reliable d (EPSSignal 29) satellite0 = Inr s') \<and>
     reachable reliable arguments_default False DONE s'"
  unfolding satellite0_def
  by (rule every_event_is_answered [OF reliable_ok reachable.start]) simp


definition running_child :: process where
  "running_child = fst (Process_new 0 ''detumble'' False)"

definition with_action :: "action \<Rightarrow> satellite \<Rightarrow> satellite" where
  "with_action a s =
     s\<lparr>actions := (actions s)(next_id s \<mapsto> a\<lparr>child := Some running_child\<rparr>),
       next_id := Suc (next_id s)\<rparr>"

lemma with_action_simps [simp]:
  "current_state (with_action a s) = current_state s" "scripts (with_action a s) = scripts s"
  "spawn_log (with_action a s) = spawn_log s" "replies (with_action a s) = replies s"
  "actions (with_action a s) = (actions s)(next_id s \<mapsto> a\<lparr>child := Some running_child\<rparr>)"
  "ids_fresh s \<Longrightarrow> ids_fresh (with_action a s)"
  by (auto simp: with_action_def ids_fresh_def less_Suc_eq)

lemma running_child_wf [simp]: "process_wf running_child"
  by (simp add: running_child_def Process_new_wf)

lemma SIGTERM_neq [simp]: "0 \<noteq> SIGTERM" "SIGTERM \<noteq> 0"
  by (simp_all add: SIGTERM_def)


text \<open>
  The battery threshold is the configured one in every reachable state, whatever the
  uninitialised fields held at the start.
\<close>

lemma threshold_never_changes:
  assumes "reachable U args enforced0 leop0 s"
  shows "battery_treshold (current_state s) = arg_battery_treshold args \<and>
    enforced_safemode (current_state s) = enforced0"
proof -
  have "config_is (arg_battery_treshold args) enforced0 Computer_new
      (Satellite_new args enforced0 leop0)"
    by (simp add: config_is_def Satellite_new_def State_new_def)
  from cfg.reachable_inv [OF assms this] show ?thesis
    by (simp add: config_is_def)
qed

lemma threshold_never_changes_witness:
  "battery_treshold (current_state (Satellite_new (arguments_default\<lparr>arg_battery_treshold := 77\<rparr>) True DONE)) = 77"
  using threshold_never_changes [OF reachable.start
      [of reliable "arguments_default\<lparr>arg_battery_treshold := 77\<rparr>" True DONE]]
  by simp

text \<open>
  In safemode and in manual mode the satellite only records facts. No script is
  started, whatever the fact reports.
\<close>

lemma silent_outside_nominal:
  assumes "is_fact ev" and "calm (current_state s)" and "ids_fresh s"
    and "safemode (update ev (current_state s)) \<noteq> 0 \<or> manualmode (update ev (current_state s))"
  shows "on_event U (Suc d) ev s = Inr (s\<lparr>current_state := update ev (current_state s)\<rparr>)"
  using assms
  by (auto simp: on_event_body_def state_copy_def transform_to_self calm_fact nominal_def)

lemma silent_outside_nominal_witness:
  "on_event (\<lambda>_ _. 1) 1 (THMSignal ALARM)
     (satellite0\<lparr>current_state := (current_state satellite0)\<lparr>manualmode := True\<rparr>\<rparr>) =
   Inr (satellite0\<lparr>current_state := (current_state satellite0)\<lparr>manualmode := True, thm_c := \<lparr>all_temp = ALARM\<rparr>\<rparr>\<rparr>)"
  unfolding One_nat_def
  by (subst silent_outside_nominal) (simp_all add: calm_def ids_fresh_def)

text \<open>
  Measuring is triggered only in nominal operation, after LEOP, with the temperature
  in order and the battery above the threshold.
\<close>

lemma measuring_guarded:
  assumes "transform_to this target = (st, acts)" and "a \<in> set acts"
    and "kind a = TriggerMeasuring"
  shows "safemode this = 0 \<and> \<not> manualmode this \<and> all_temp (thm_c this) = OK \<and>
    battery_treshold this < battery_level (eps this) \<and> leop this = DONE \<and>
    leop target = DONE \<and> daemon (pl target) = WANTMEASURE"
proof -
  have "a \<in> set (auto_rules (daemon (pl target)) (leop_shift this target))"
    using assms by (intro autonomous_by_rule) (simp_all add: autonomous_def)
  with assms(3) show ?thesis
    by (auto simp: auto_rules_mem nominal_def measuring_allowed_def leop_shift_def
        split: if_splits)
qed

lemma measuring_guarded_witness:
  "leop ((current_state satellite0)\<lparr>thm_c := \<lparr>all_temp = OK\<rparr>, eps := \<lparr>battery_level = 31\<rparr>\<rparr>) = DONE"
proof -
  let ?s = "(current_state satellite0)\<lparr>thm_c := \<lparr>all_temp = OK\<rparr>, eps := \<lparr>battery_level = 31\<rparr>\<rparr>"
  have "TriggerMeasuring_new \<in> set (snd (transform_to ?s (?s\<lparr>pl := \<lparr>daemon = WANTMEASURE\<rparr>\<rparr>)))"
    by (simp add: transform_to_split auto_rules_mem nominal_def measuring_allowed_def leop_shift_def
        emergency_reason_def)
  with measuring_guarded [of ?s "?s\<lparr>pl := \<lparr>daemon = WANTMEASURE\<rparr>\<rparr>" _ _ TriggerMeasuring_new]
  show ?thesis
    by (metis kind_new(9) prod.collapse)
qed

text \<open>
  In manoeuvre mode, before deployment and outside nominal operation, the table leaves
  the attitude control alone.
\<close>

lemma adcs_left_alone:
  assumes "maneuvermode this \<or> leop (fst (transform_to this target)) = UNDEPLOYED \<or>
      safemode this \<noteq> 0 \<or> manualmode this"
    and "a \<in> set (snd (transform_to this target))"
  shows "kind a \<noteq> TriggerDetumbling \<and> kind a \<noteq> TriggerSunpointing"
proof (rule ccontr)
  assume "\<not> (kind a \<noteq> TriggerDetumbling \<and> kind a \<noteq> TriggerSunpointing)"
  moreover from this have "a \<in> set (auto_rules (daemon (pl target)) (leop_shift this target))"
    using assms(2) by (intro autonomous_by_rule) (auto simp: autonomous_def)
  ultimately show False
    using assms(1)
    by (auto simp: auto_rules_mem transform_to_split leop_shift_simps nominal_def deployed_le_iff)
qed

lemma adcs_left_alone_witness:
  "kind (EnterSafeMode_new 1) \<noteq> TriggerDetumbling"
proof -
  let ?s = "(current_state satellite0)\<lparr>maneuvermode := True, thm_c := \<lparr>all_temp = ALARM\<rparr>\<rparr>"
  have "EnterSafeMode_new 1 \<in> set (snd (transform_to ?s ?s))"
    by (simp add: transform_to_split auto_rules_mem nominal_def leop_shift_def emergency_reason_def)
  with adcs_left_alone [of ?s ?s "EnterSafeMode_new 1"] show ?thesis
    by simp
qed

text \<open>
  Detumbling and sun pointing are never triggered together, and each at most once per
  evaluation of the table.
\<close>

lemma adcs_actions_exclusive:
  "length (filter (\<lambda>a. kind a = TriggerDetumbling \<or> kind a = TriggerSunpointing)
     (snd (transform_to this target))) \<le> 1"
proof -
  let ?P = "\<lambda>a. kind a = TriggerDetumbling \<or> kind a = TriggerSunpointing"
  have "filter ?P (Computer_transform_to c c') = []" for c c'
    by (auto simp: filter_empty_conv dest: commands_kind)
  moreover have "filter ?P (request_rules this target) = []"
    by (auto simp: filter_empty_conv dest: request_rules_kind)
  moreover have "length (filter ?P (auto_rules w s)) \<le> 1" for w s
    by (cases "emergency_reason s") (auto simp: auto_rules_def adcs_idle_def)
  ultimately show ?thesis
    by (simp add: transform_to_split)
qed

text \<open>
  C22: the autonomous actions are guarded. Whatever the current and the target state are,
  the table triggers measuring only in nominal operation, after LEOP, with the temperature
  in order and the battery above the threshold; it touches the attitude control only in
  nominal operation, after deployment and outside manoeuvre mode, and then with one action.
\<close>

theorem autonomous_actions_guarded:
  assumes "a \<in> set (snd (transform_to this target))"
  shows "(kind a = TriggerMeasuring \<longrightarrow>
      safemode this = 0 \<and> \<not> manualmode this \<and> all_temp (thm_c this) = OK \<and>
      battery_treshold this < battery_level (eps this) \<and> leop this = DONE \<and>
      leop target = DONE \<and> daemon (pl target) = WANTMEASURE) \<and>
    (kind a \<in> {TriggerDetumbling, TriggerSunpointing} \<longrightarrow>
      safemode this = 0 \<and> \<not> manualmode this \<and> \<not> maneuvermode this \<and>
      leop (fst (transform_to this target)) \<noteq> UNDEPLOYED) \<and>
    length (filter (\<lambda>a. kind a \<in> {TriggerDetumbling, TriggerSunpointing})
      (snd (transform_to this target))) \<le> 1"
  using measuring_guarded [of this target "fst (transform_to this target)" "snd (transform_to this target)" a]
    adcs_left_alone [of this target a] adcs_actions_exclusive [of this target] assms
  by auto

lemma autonomous_actions_guarded_witness:
  "length (filter (\<lambda>a. kind a \<in> {TriggerDetumbling, TriggerSunpointing})
     (snd (transform_to (current_state satellite0) (current_state satellite0)))) \<le> 1"
proof -
  have "TriggerDetumbling_new \<in> set (snd (transform_to (current_state satellite0) (current_state satellite0)))"
    by (simp add: transform_to_split auto_rules_mem nominal_def leop_shift_def adcs_idle_def
        deployed_le_iff)
  from autonomous_actions_guarded [OF this] show ?thesis
    by simp
qed

text \<open>
  C23: leaving safemode during an emergency. Assume that processes can be started, that the
  forcing flag and the command queue are clear, and that the stack holds three levels. Outside
  manual mode a request to leave safemode ends in safemode again, now for the reason of the
  emergency and with manoeuvre mode off, and the script that enters safemode is started before
  the script that leaves it. In manual mode the request is obeyed: safemode is left, with its
  one script, whatever the emergency.
\<close>

theorem leaving_safemode_in_emergency:
  assumes "spawns_ok U" and "calm (current_state s)" and "ids_fresh s" and "3 \<le> d"
    and "safemode (current_state s) \<noteq> 0" and "emergency (current_state s)"
  shows "yields (\<lambda>s'.
      if manualmode (current_state s)
      then safemode (current_state s') = 0 \<and>
        spawn_log s' = spawn_log s @ [(scripts s @ ''leave_safemode.sh'', 0)]
      else safemode (current_state s') \<in> {1, 2} \<and> \<not> maneuvermode (current_state s') \<and>
        (\<exists>ls. spawn_log s' = spawn_log s @ (scripts s @ ''enter_safemode.sh'', 0) # ls
                @ [(scripts s @ ''leave_safemode.sh'', 0)]))
    (on_event U d (SafeModeReq False) s)"
  using assms(5,6)
  by (intro yields_mono [OF on_event_expected [OF assms(1-4)]])
    (auto simp: progress_def settle_def nominal_def emergency_def emergency_reason_def
      auto_scripts_def auto_rules_def)

lemma leaving_safemode_in_emergency_witness:
  "yields (\<lambda>s'. safemode (current_state s') \<in> {1, 2})
    (on_event reliable 3 (SafeModeReq False)
      (satellite0\<lparr>current_state := (current_state satellite0)\<lparr>safemode := 1, thm_c := \<lparr>all_temp = ALARM\<rparr>\<rparr>\<rparr>))"
  by (rule yields_mono [OF leaving_safemode_in_emergency [OF reliable_ok]])
    (simp_all add: calm_def ids_fresh_def emergency_def)

text \<open>
  C21: the attitude control cycle. Let the satellite cruise: deployed, in nominal operation,
  without emergency, manoeuvre or wish of the payload, and with the flag that forces safemode
  and the command queue cleared. When the detumbling script has ended well, no report of the
  battery level triggers anything until the ADCS reports detumbling; then sun pointing is
  triggered, and once more by every further report of the battery level, as long as the ADCS
  reports nothing else and the script of none of them has ended.
\<close>

theorem sunpointing_follows_detumbling:
  assumes "spawns_ok U" and "3 \<le> d" and "ids_fresh s"
    and "actions s i = Some a" and "child a = Some p" and "process_wf p"
    and "kind a = TriggerDetumbling" and "request a = None"
    and "cruising (current_state s)" and "\<forall>b\<in>set (before @ after). battery_treshold (current_state s) \<le> b"
  shows "yields (\<lambda>s'. spawn_log s' =
        spawn_log s @ replicate (1 + length after) (scripts s @ ''trigger_sunpointing.sh'', 0) \<and>
      pointing (adcs (current_state s')) = DETUMB)
    (and_then (process_exit (on_event U d) i 0 0 s)
      (on_events U d (map EPSSignal before @ [ADCSSignal DETUMB] @ map EPSSignal after)))"
proof -
  let ?path = "scripts s @ ''trigger_sunpointing.sh''" and ?c = "detumbling (current_state s)"
  note bats = battery_reports_progress [OF assms(1,2), of "{i}" s]
  have one: "yields (progress {i} s [] ?c) (process_exit (on_event U d) i 0 0 s)"
    by (rule detumbling_ended [OF assms(1-9)])
  have two: "yields (reported {i} s [] ?c) (on_events U d (map EPSSignal before) s1)"
    if "progress {i} s [] ?c s1" for s1
    using bats [of "[]" s1 before] progressD [OF that] that assms(9,10) by simp
  have three: "yields (\<lambda>s'. progress {i} s (replicate (1 + length after) ?path) (current_state s') s' \<and>
      pointing (adcs (current_state s')) = DETUMB) (on_events U d (map EPSSignal after) s3)"
    if "reported {i} s ([] @ [?path]) (current_state s3) s3 \<and> pointing (adcs (current_state s3)) = DETUMB \<and>
      battery_treshold (current_state s3) = battery_treshold ?c" for s3
    using bats [of "[?path]" s3 after] that assms(10)
    by (auto simp: reported_def attitude_scripts_def adcs_idle_def concat_replicate_one elim!: yields_mono)
  show ?thesis
    unfolding on_events_three
    by (rule yields_mono [OF yields_and_then [OF one yields_and_then [OF two
            yields_and_then [OF detumbling_reported [OF assms(1,2)] three]]]])
      (auto simp: progress_def)
qed

lemma sunpointing_follows_detumbling_witness:
  "yields (\<lambda>s. map fst (spawn_log s) =
      [''./scripts/trigger_sunpointing.sh'', ''./scripts/trigger_sunpointing.sh''])
    (and_then (process_exit (on_event reliable 3) 0 0 0 (with_action TriggerDetumbling_new satellite0))
      (on_events reliable 3 (map EPSSignal [31, 40] @ [ADCSSignal DETUMB] @ map EPSSignal [35])))"
  by (rule yields_mono [OF sunpointing_follows_detumbling
        [where a = "TriggerDetumbling_new\<lparr>child := Some running_child\<rparr>" and p = running_child,
         OF reliable_ok order_refl]])
    (simp_all add: cruising_def calm_def nominal_def emergency_def deployed_le_iff
      TriggerDetumbling_new_def ShellCommand_new_def)

text \<open>
  Detumbling is triggered again and again. While the ADCS is idle every report of the
  battery level starts the detumbling script once more, also while the script of an
  earlier report is still running: the state does not record that it was asked for.
\<close>

lemma repeated_detumbling:
  assumes "spawns_ok U" and "3 \<le> d" and "ids_fresh s" and "cruising (current_state s)"
    and "adcs_idle (current_state s)" and "\<forall>b\<in>set bs. battery_treshold (current_state s) \<le> b"
  shows "yields (\<lambda>s'. spawn_log s' =
      spawn_log s @ replicate (length bs) (scripts s @ ''trigger_detumbling.sh'', 0))
    (on_events U d (map EPSSignal bs) s)"
proof -
  let ?path = "scripts s @ ''trigger_detumbling.sh''"
  have "attitude_scripts (scripts s) (current_state s) = [?path]"
    using assms(5) by (simp add: attitude_scripts_def)
  then show ?thesis
    using battery_reports_progress [OF assms(1,2) progress_refl [OF assms(3)] assms(4,6), of "{}"]
    by (auto simp: reported_def progress_def concat_replicate_one elim!: yields_mono)
qed

lemma repeated_detumbling_witness:
  "yields (\<lambda>s. length (spawn_log s) = 3)
    (on_events reliable 3 (map EPSSignal [30, 40, 50]) satellite0)"
  by (rule yields_mono [OF repeated_detumbling [OF reliable_ok order_refl]])
    (simp_all add: cruising_def calm_def nominal_def emergency_def deployed_le_iff adcs_idle_def)

text \<open>
  C28: the constructor of \<open>State\<close> leaves \<open>enforced_safemode\<close> uninitialised. If it happens to
  be set, the first request for safemode recurses until the stack is exhausted, whatever
  its size.
\<close>

theorem uninitialised_flag_overflows:
  "on_event U d (SafeModeReq True) (Satellite_new args True leop0) = Inl StackOverflow"
proof (cases d)
  case (Suc e)
  let ?s = "Satellite_new args True leop0" and ?a = "EnterSafeMode_new 3"
  obtain as where tr: "transform_to (current_state ?s) (update (SafeModeReq True) (current_state ?s)) =
      (current_state ?s, ?a # as)"
    by (simp add: transform_to_split request_rules_def Computer_transform_to_def leop_shift_def
        Satellite_new_def State_new_def Computer_new_def)
  let ?t = "?s\<lparr>actions := (actions ?s)(next_id ?s \<mapsto> ?a), next_id := Suc (next_id ?s)\<rparr>"
  have fresh: "ids_fresh ?s" "ids_fresh ?t"
    by (simp_all add: ids_fresh_def Satellite_new_def Let_def)
  have "on_event U e (SafeModeSignal 3) ?t = Inl StackOverflow"
    using fresh(2) by (intro enforced_overflow)
      (simp_all add: Satellite_new_def State_new_def Computer_new_def)
  with tr show ?thesis
    using run_actions_Cons [OF fresh(1)]
    by (simp add: Suc on_event_body_def state_copy_def perform_def EnterSafeMode_perform_def
        del: run_actions.simps)
qed simp

text \<open>
  C29: if no process can be started, a fact that reports an emergency in nominal operation
  makes the handler enter and leave safemode until the stack is exhausted.
\<close>

theorem unspawnable_emergency_overflows:
  assumes "spawns_fail U" and "is_fact ev" and "calm (current_state s)" and "ids_fresh s"
    and "nominal (update ev (current_state s))" and "emergency (update ev (current_state s))"
  shows "on_event U d ev s = Inl StackOverflow"
  using assms by (rule spawn_failure_overflow)

lemma unspawnable_emergency_overflows_witness:
  "on_event (\<lambda>_ _. - 11) 1000 (EPSSignal 29) satellite0 = Inl StackOverflow"
  by (rule unspawnable_emergency_overflows)
    (simp_all add: spawns_fail_def nominal_def emergency_def calm_def)

text \<open>
  C30: a command whose process cannot be started is never survived. The process reports its
  exit from inside its constructor, the action is removed from the table, and the
  constructed process is then stored in the freed action.
\<close>

theorem failed_spawn_never_returns:
  assumes "actions s i = Some a" and "U (spawn_log s) (command_line (scripts s) a) \<noteq> 0"
  shows "\<forall>s'. ShellCommand_perform U (on_event U d) i s \<noteq> Inr s'"
  using spawn_failure_faults [where U = U, OF assms, of "on_event U d"] by auto

lemma failed_spawn_never_returns_witness:
  "\<forall>s'. ShellCommand_perform (\<lambda>_ _. - 2) (on_event (\<lambda>_ _. - 2) 5) 0
     (with_action TriggerMeasuring_new satellite0) \<noteq> Inr s'"
  by (rule failed_spawn_never_returns) simp_all

text \<open>
  C31: an action whose process is killed by \<open>SIGTERM\<close> never completes. Its exit is recorded
  in the process, but the action stays in the table, nobody hears the exit code, and the
  state is as before.
\<close>

theorem sigterm_never_completes:
  assumes "actions s i = Some a" and "child a = Some p" and "process_wf p"
  shows "\<exists>q. process_exit (on_event U d) i status SIGTERM s =
      Inr (s\<lparr>actions := (actions s)(i \<mapsto> a\<lparr>child := Some q\<rparr>)\<rparr>) \<and> \<not> running q"
  using assms by (rule process_exit_sigterm)

lemma sigterm_never_completes_witness:
  "\<exists>s. process_exit (on_event reliable 3) 0 1 SIGTERM (with_action LeaveManualMode_new satellite0) = Inr s \<and>
     actions s 0 \<noteq> None \<and> current_state s = current_state satellite0"
  using sigterm_never_completes [of "with_action LeaveManualMode_new satellite0" 0
      "LeaveManualMode_new\<lparr>child := Some running_child\<rparr>" running_child reliable 3 1]
  by auto

section \<open>Properties of the remote shell\<close>

text \<open>
  C11: a remote command from end to end. Assume a link that takes all data and is not lost, that
  processes can be started, a connected server without a process, data that fit in frames, a
  command that does not exit by SIGTERM, and an exit callback that survives its own
  destruction. Then the client's frame for its arguments, split in any way, starts exactly the
  command that the user typed; and the bytes that the server sends while the command writes
  output and exits, split in any way, tell the client of the start, of every piece of output
  in order, and of the exit code.
\<close>

theorem remote_command_end_to_end:
  assumes "reliable_link E" and "can_spawn E" and "channel srv" and "process srv = None"
    and "s3tp_server.buf srv = []" and "expected srv = 0" and "outbuf srv = []"
    and "framable (snd (command_message args))"
    and "concat (map snd cs) =
      fst (writeData W (snd (command_message args)) (fst (command_message args)))"
    and "\<forall>(_, d)\<in>set os. framable d \<and> d \<noteq> []"
    and "sig \<noteq> SIGTERM" and "framable (exit_text status)" and "keeps_closures E"
  shows "yields (\<lambda>s. \<exists>bytes. spawned s = spawned srv @ [join_args args @ [CHR 0x0A]] \<and>
      sent E s = sent E srv @ bytes \<and> process s = None \<and>
      (\<forall>ds. concat ds = bytes \<longrightarrow>
        (\<exists>c. client_receives ds (RemoteexecCallback_new ty) = Inr c \<and>
          heard c = CommandReceived # map (\<lambda>(_, d). Output d) os @ [Completed (exit_text status)])))
    (and_then (receive E cs srv)
      (\<lambda>s. and_then (outputs E os s) (process_exited E status sig)))"
proof -
  let ?c = "join_args args @ [CHR 0x0A]" and ?last = "(ENDOFFILE, exit_text status)"
  define outs where "outs = map (\<lambda>(b, d). (out_type b, d)) os"
  define ms where "ms = (STARTED, []) # outs @ [?last]"
  have c: "framable ?c" "?c \<noteq> []" "concat (map snd cs) = frame message_type.NONE ?c"
    using assms(8,9) by (simp_all add: command_message_def writeData_frame)
  have ms: "\<forall>m\<in>set ms. framable (snd m) \<and> (snd m \<noteq> [] \<or> fst m \<noteq> message_type.NONE)"
    using assms(10,12) by (auto simp: ms_def outs_def framable_def)
  have outs: "concat (map (\<lambda>(b, d). if d = [] then [] else frame (out_type b) d) os) =
      concat (map (\<lambda>(t, d). frame t d) outs)"
    using assms(10) by (fastforce simp: outs_def intro!: arg_cong [where f = concat])
  have heard: "map (\<lambda>(t, d). note_of (mt_byte t) d) ms =
      CommandReceived # map (\<lambda>(_, d). Output d) os @ [Completed (exit_text status)]"
    by (auto simp: ms_def outs_def note_of_def out_type_def)
  have one: "yields (\<lambda>s. (\<exists>p. process s = Some p \<and> process_wf p) \<and> spawned s = spawned srv @ [?c] \<and>
      sent E s = sent E srv @ frame STARTED [] \<and> outbuf s = [] \<and> channel s) (receive E cs srv)"
    using pieces_received [OF assms(1-7) c] by (rule yields_mono) auto
  have two: "yields (\<lambda>s'. (\<exists>p. process s' = Some p \<and> process_wf p) \<and> spawned s' = spawned srv @ [?c] \<and>
      sent E s' = sent E srv @ frame STARTED [] @ concat (map (\<lambda>(t, d). frame t d) outs) \<and>
      outbuf s' = [] \<and> channel s') (outputs E os s)"
    if "(\<exists>p. process s = Some p \<and> process_wf p) \<and> spawned s = spawned srv @ [?c] \<and>
      sent E s = sent E srv @ frame STARTED [] \<and> outbuf s = [] \<and> channel s" for s
  proof -
    from that obtain p where p: "process s = Some p" by blast
    have "\<forall>(_, d)\<in>set os. framable d"
      using assms(10) by auto
    from outputs_delivered [OF assms(1) _ _ p this] that show ?thesis
      by (auto simp: delivered_def outs elim!: yields_mono)
  qed
  have three: "yields (\<lambda>s'. process s' = None \<and> spawned s' = spawned srv @ [?c] \<and>
      sent E s' = sent E srv @ concat (map (\<lambda>(t, d). frame t d) ms)) (process_exited E status sig s)"
    if "(\<exists>p. process s = Some p \<and> process_wf p) \<and> spawned s = spawned srv @ [?c] \<and>
      sent E s = sent E srv @ frame STARTED [] @ concat (map (\<lambda>(t, d). frame t d) outs) \<and>
      outbuf s = [] \<and> channel s" for s
  proof -
    from that obtain p where "process s = Some p" "process_wf p" by blast
    from process_exited_delivers [OF assms(1) _ this assms(11-13)] that show ?thesis
      by (auto simp: ms_def elim!: yields_mono)
  qed
  show ?thesis
    by (rule yields_mono [OF yields_and_then [OF one yields_and_then [OF two three]]])
      (use client_hears [OF ms] heard in auto)
qed

lemma remote_command_end_to_end_witness:
  "yields (\<lambda>s. spawned s = [''ls -l'' @ [CHR 0x0A]])
    (and_then (receive link_env
        [(CHR 0x00, fst (writeData (\<lambda>_. 1) (''ls -l'' @ [CHR 0x0A]) message_type.NONE))] server1)
      (\<lambda>s. and_then (outputs link_env [(True, ''total 0'')] s) (process_exited link_env 0 0)))"
proof -
  have args: "command_message [''ls'', ''-l''] = (message_type.NONE, ''ls -l'' @ [CHR 0x0A])"
    "join_args [''ls'', ''-l''] = ''ls -l''"
    by (simp_all add: command_message_def)
  have fr: "framable (''ls -l'' @ [CHR 0x0A])" "framable ''total 0''" "framable (exit_text 0)"
    by (simp_all add: framable_def exit_text_def show_int_def show_nat.simps)
  have "spawned server1 = []"
    by (simp add: spawned_def)
  then show ?thesis
    using fr
    by (intro yields_mono [OF remote_command_end_to_end
          [where args = "[''ls'', ''-l'']" and W = "\<lambda>_. 1" and ty = "CHR 0x00"]])
      (auto simp: args)
qed





section \<open>Properties of the texts\<close>

text \<open>
  C40: the parsers read the names. Every enumerator and truth value is read from its name,
  in upper or lower case but for the temperatures, whatever the signedness of \<open>char\<close>.
\<close>

theorem names_are_read:
  assumes "upcase (adcs_text) = adcs_name a" and "upcase leop_text = leop_name l"
    and "upcase bool_text = bool_name b"
  shows "str2state sc adcs_text = a \<and> str2leop sc leop_text = l \<and> str2bool sc bool_text = Inr b \<and>
    str2temp sc (temp_name t) = t"
proof -
  have "upcase adcs_text = upcase (adcs_name a)" "upcase leop_text = upcase (leop_name l)"
    "upcase bool_text = upcase (bool_name b)"
    using assms by simp_all
  from parse_upcase(1) [OF this(1)] parse_upcase(2) [OF this(2)] parse_upcase(3) [OF this(3)]
  show ?thesis by simp
qed

lemma names_are_read_witness:
  "str2state True ''sun'' = SUN \<and> str2leop True ''Done'' = DONE"
proof -
  have "upcase ''sun'' = adcs_name SUN" "upcase ''Done'' = leop_name DONE" "upcase ''TRUE'' = bool_name True"
    by code_simp+
  from names_are_read [OF this, of True OK] show ?thesis by simp
qed

text \<open>
  The parsers read other texts, too. They compare hashes, and these texts, which are
  no names, have the hashes of names: \<^verbatim>\<open>T3TE\<close> is read as true, \<^verbatim>\<open>S4O\<close> as sun pointing,
  \<^verbatim>\<open>.J\<close> as a temperature in order and \<^verbatim>\<open>DO0{\<close> as the end of LEOP.
\<close>

lemma other_texts_are_read:
  "str2bool sc ''T3TE'' = Inr True \<and> str2state sc ''S4O'' = SUN \<and>
   str2temp sc ''.J'' = OK \<and> str2leop sc ''DO0{'' = DONE"
  by (cases sc) (simp_all only: collisions_for simp_thms)

end
